(* ===== verification/Prelude.thy ===== *)
theory Prelude
  imports Main "HOL-Library.Word" "HOL-Library.Multiset"
begin

text \<open>
  The vocabulary the components share: Rust strings, results, integers and times as HOL
  types, the parts of the Rust standard library that the SDK calls on them
  (\<^verbatim>\<open>str::trim\<close>, decimal formatting, \<^verbatim>\<open>Option\<close>/\<^verbatim>\<open>Result\<close> combinators,
  \<^verbatim>\<open>Duration\<close>, \<^verbatim>\<open>Instant\<close>), and the generic lemmas the component proofs use.
\<close>

named_theorems literals \<open>rules that spell a string literal out as code points\<close>
named_theorems accessors \<open>getters, setters and constants that unfold to record fields\<close>

subsection \<open>Strings\<close>

text \<open>
  A Rust \<^verbatim>\<open>String\<close> is a sequence of Unicode scalar values, and \<^verbatim>\<open>chars().count()\<close>
  counts those. A string is therefore a list of code points and not a list of HOL's
  8-bit characters; \<open>lit\<close> turns a source literal into one.
\<close>

type_synonym rchar = nat
type_synonym rstring = "rchar list"

definition lit :: "string \<Rightarrow> rstring" where
  "lit s = map of_char s"

lemma lit_Nil [literals]: "lit [] = []"
  by (simp add: lit_def)

lemma lit_Cons [literals]: "lit (c # cs) = of_char c # lit cs"
  by (simp add: lit_def)

text \<open>The code points with the Unicode property \<^verbatim>\<open>White_Space\<close>, which \<^verbatim>\<open>str::trim\<close> removes.\<close>

definition is_whitespace :: "rchar \<Rightarrow> bool" where
  "is_whitespace c \<longleftrightarrow>
     (9 \<le> c \<and> c \<le> 13) \<or> c = 32 \<or> c = 133 \<or> c = 160 \<or> c = 5760 \<or>
     (8192 \<le> c \<and> c \<le> 8202) \<or> c = 8232 \<or> c = 8233 \<or> c = 8239 \<or> c = 8287 \<or> c = 12288"

definition trim :: "rstring \<Rightarrow> rstring" where
  "trim s = rev (dropWhile is_whitespace (rev (dropWhile is_whitespace s)))"

text \<open>\<^verbatim>\<open>s.trim().is_empty()\<close>, the test every validation of the SDK uses.\<close>

definition is_blank :: "rstring \<Rightarrow> bool" where
  "is_blank s \<longleftrightarrow> trim s = []"

lemma is_blank_iff: "is_blank s \<longleftrightarrow> (\<forall>c\<in>set s. is_whitespace c)"
proof -
  have "is_blank s \<longleftrightarrow> (\<forall>c\<in>set (dropWhile is_whitespace s). is_whitespace c)"
    by (simp add: is_blank_def trim_def)
  also have "\<dots> \<longleftrightarrow> (\<forall>c\<in>set s. is_whitespace c)"
    by (metis dropWhile_eq_Nil_conv hd_dropWhile hd_in_set set_dropWhileD)
  finally show ?thesis .
qed

lemma is_blank_Nil [simp]: "is_blank []"
  by (simp add: is_blank_iff)

lemma is_blank_Cons [simp]: "is_blank (c # s) \<longleftrightarrow> is_whitespace c \<and> is_blank s"
  by (simp add: is_blank_iff)

lemma lit_eq_iff [simp]: "lit s = lit t \<longleftrightarrow> s = t"
  unfolding lit_def by (rule inj_map_eq_map) (simp add: inj_on_def)

lemma is_blank_lit [simp]: "is_blank (lit (c # s)) \<longleftrightarrow> is_whitespace (of_char c) \<and> is_blank (lit s)"
  by (simp add: lit_def)

text \<open>\<^verbatim>\<open>haystack.contains(needle)\<close>\<close>

definition str_contains :: "rstring \<Rightarrow> rstring \<Rightarrow> bool" where
  "str_contains haystack needle \<longleftrightarrow>
     list_ex (\<lambda>n. take (length needle) (drop n haystack) = needle) [0..<length haystack + 1]"

lemma str_containsI: "str_contains (before @ needle @ after) needle"
  unfolding str_contains_def list_ex_iff by (rule bexI [of _ "length before"]) auto

subsection \<open>Results\<close>

text \<open>\<^verbatim>\<open>Result<T, E>\<close> is \<open>'e + 'a\<close> with \<open>Inl\<close> the error; \<open>tryr\<close> is the \<^verbatim>\<open>?\<close> operator.\<close>

type_synonym ('a, 'e) result = "'e + 'a"

fun tryr :: "('a, 'e) result \<Rightarrow> ('a \<Rightarrow> ('b, 'e) result) \<Rightarrow> ('b, 'e) result" where
  "tryr (Inl e) f = Inl e"
| "tryr (Inr x) f = f x"

lemma tryr_eq_Inr: "tryr r f = Inr y \<longleftrightarrow> (\<exists>x. r = Inr x \<and> f x = Inr y)"
  by (cases r) auto

lemma tryr_eq_Inl: "tryr r f = Inl e \<longleftrightarrow> r = Inl e \<or> (\<exists>x. r = Inr x \<and> f x = Inl e)"
  by (cases r) auto

text \<open>\<^verbatim>\<open>Option::filter\<close> and \<^verbatim>\<open>Option::or\<close>.\<close>

fun option_filter :: "('a \<Rightarrow> bool) \<Rightarrow> 'a option \<Rightarrow> 'a option" where
  "option_filter P None = None"
| "option_filter P (Some x) = (if P x then Some x else None)"

fun option_or :: "'a option \<Rightarrow> 'a option \<Rightarrow> 'a option" where
  "option_or None y = y"
| "option_or (Some x) y = Some x"

fun unwrap_or :: "'a option \<Rightarrow> 'a \<Rightarrow> 'a" where
  "unwrap_or None d = d"
| "unwrap_or (Some x) d = x"

lemma option_or_eq_None [simp]: "option_or x y = None \<longleftrightarrow> x = None \<and> y = None"
  by (cases x) auto

lemma option_filter_eq_Some: "option_filter P x = Some y \<longleftrightarrow> x = Some y \<and> P y"
  by (cases x) auto

subsection \<open>Integers and their decimal text\<close>

type_synonym u8 = "8 word"
type_synonym u16 = "16 word"
type_synonym u64 = "64 word"
type_synonym usize = "64 word"

text \<open>
  Signed integers (\<^verbatim>\<open>i32\<close>, \<^verbatim>\<open>i64\<close>) are \<open>int\<close>: the SDK compares and converts them
  but never adds to them. \<open>i32_try_from\<close> and \<open>i64_try_from\<close> are the checked conversions.
\<close>

definition i32_try_from :: "int \<Rightarrow> int option" where
  "i32_try_from n = (if - (2 ^ 31) \<le> n \<and> n < 2 ^ 31 then Some n else None)"

definition i64_try_from :: "int \<Rightarrow> int option" where
  "i64_try_from n = (if - (2 ^ 63) \<le> n \<and> n < 2 ^ 63 then Some n else None)"

fun show_nat :: "nat \<Rightarrow> rstring" where
  "show_nat n = (if n < 10 then [48 + n] else show_nat (n div 10) @ [48 + n mod 10])"

declare show_nat.simps [simp del]

text \<open>Evaluation on numerals, one digit at a time.\<close>

lemmas show_nat_numerals = show_nat.simps [of "numeral n" for n] show_nat.simps [of 0] show_nat.simps [of "Suc 0"]

definition show_int :: "int \<Rightarrow> rstring" where
  "show_int i = (if i < 0 then 45 # show_nat (nat (- i)) else show_nat (nat i))"

definition is_digit :: "rchar \<Rightarrow> bool" where
  "is_digit c \<longleftrightarrow> 48 \<le> c \<and> c \<le> 57"

text \<open>The value of a digit string, most significant digit first.\<close>

fun digits_value :: "nat \<Rightarrow> rstring \<Rightarrow> nat" where
  "digits_value acc [] = acc"
| "digits_value acc (c # cs) = digits_value (10 * acc + (c - 48)) cs"

lemma digits_value_append: "digits_value acc (s @ t) = digits_value (digits_value acc s) t"
  by (induction s arbitrary: acc) auto

lemma digits_value_show_nat [simp]: "digits_value 0 (show_nat n) = n"
proof (induction n rule: show_nat.induct)
  case (1 n)
  show ?case
  proof (cases "n < 10")
    case True
    then show ?thesis by (simp add: show_nat.simps [of n])
  next
    case False
    with "1" have "digits_value 0 (show_nat (n div 10)) = n div 10" by simp
    with False show ?thesis by (simp add: show_nat.simps [of n] digits_value_append)
  qed
qed

lemma show_nat_digits: "c \<in> set (show_nat n) \<Longrightarrow> is_digit c"
proof (induction n rule: show_nat.induct)
  case (1 n)
  then show ?case
    by (cases "n < 10") (auto simp: show_nat.simps [of n] is_digit_def)
qed

lemma show_nat_nonempty [simp]: "show_nat n \<noteq> []"
  by (subst show_nat.simps) simp

lemma show_nat_inject [simp]: "show_nat m = show_nat n \<longleftrightarrow> m = n"
  by (metis digits_value_show_nat)

subsection \<open>Time\<close>

text \<open>
  A \<^verbatim>\<open>Duration\<close> and a reading of the monotonic clock (\<^verbatim>\<open>Instant\<close>) are numbers of
  nanoseconds. \<^verbatim>\<open>Instant::elapsed\<close> saturates at zero, as subtraction on \<open>nat\<close> does.
\<close>

type_synonym duration = nat
type_synonym instant = nat

definition from_millis :: "nat \<Rightarrow> duration" where
  "from_millis n = n * 1000000"

definition from_secs :: "nat \<Rightarrow> duration" where
  "from_secs n = n * 1000000000"

definition elapsed :: "instant \<Rightarrow> instant \<Rightarrow> duration" where
  "elapsed started now = now - started"

definition checked_duration_since :: "instant \<Rightarrow> instant \<Rightarrow> duration option" where
  "checked_duration_since later earlier = (if earlier \<le> later then Some (later - earlier) else None)"

subsection \<open>Updating one element of a list\<close>

lemma length_filter_update:
  assumes "i < length xs"
  shows "length (filter P (xs[i := x])) + of_bool (P (xs ! i)) = length (filter P xs) + of_bool (P x)"
proof -
  have "length (filter P xs) = length (filter P (take i xs @ xs ! i # drop (Suc i) xs))"
    using id_take_nth_drop [OF assms] by simp
  then show ?thesis
    using assms by (simp add: upd_conv_take_nth_drop)
qed

lemma sum_list_update:
  fixes f :: "'a \<Rightarrow> nat"
  shows "i < length xs \<Longrightarrow> sum_list (map f (xs[i := x])) + f (xs ! i) = sum_list (map f xs) + f x"
  by (induction xs arbitrary: i) (auto split: nat.splits)

lemma mset_concat_update:
  assumes "i < length xs"
  shows "mset (concat (map f (xs[i := x]))) + mset (f (xs ! i)) = mset (concat (map f xs)) + mset (f x)"
proof -
  have "mset (concat (map f xs)) =
      mset (concat (map f (take i xs))) + mset (f (xs ! i)) + mset (concat (map f (drop (Suc i) xs)))"
    by (subst id_take_nth_drop [OF assms]) simp
  then show ?thesis
    using assms by (simp add: upd_conv_take_nth_drop)
qed

lemma mem_updateD: "y \<in> set (xs[i := x]) \<Longrightarrow> y \<noteq> x \<Longrightarrow> y \<in> set xs"
  using set_update_subset_insert [of xs i x] by auto

end
