(* ===== verification/Incident_Error.thy ===== *)
theory Incident_Error
  imports Prelude
begin

text \<open>
  \<^verbatim>\<open>src/rust/src/error.rs\<close>: the error type of every operation, its constructors and
  accessors. The boxed \<^verbatim>\<open>dyn Error\<close> cause comes from \<^verbatim>\<open>ureq\<close> or \<^verbatim>\<open>serde_json\<close>; its type
  is the parameter \<open>'e\<close>.
\<close>

definition NO_STATUS_CODE :: int where
  "NO_STATUS_CODE = - 1"

datatype 'e IncidentError =
    InvalidRequest rstring
  | ClientClosed
  | Delivery rstring int bool "'e option"

definition invalid :: "rstring \<Rightarrow> 'e IncidentError" where
  "invalid message = InvalidRequest message"

definition delivery :: "rstring \<Rightarrow> int \<Rightarrow> bool \<Rightarrow> 'e IncidentError" where
  "delivery message status retryable = Delivery message status retryable None"

definition delivery_caused_by :: "rstring \<Rightarrow> int \<Rightarrow> bool \<Rightarrow> 'e \<Rightarrow> 'e IncidentError" where
  "delivery_caused_by message status retryable cause = Delivery message status retryable (Some cause)"

fun status_code :: "'e IncidentError \<Rightarrow> int option" where
  "status_code (Delivery _ status _ _) = (if status \<noteq> NO_STATUS_CODE then Some status else None)"
| "status_code _ = None"

fun is_retryable :: "'e IncidentError \<Rightarrow> bool" where
  "is_retryable (Delivery _ _ retryable _) = retryable"
| "is_retryable _ = False"

fun error_to_string :: "'e IncidentError \<Rightarrow> rstring" where
  "error_to_string (InvalidRequest message) = lit ''invalid request: '' @ message"
| "error_to_string ClientClosed = lit ''the incident client is closed''"
| "error_to_string (Delivery message _ _ _) = message"

fun error_source :: "'e IncidentError \<Rightarrow> 'e option" where
  "error_source (Delivery _ _ _ cause) = cause"
| "error_source _ = None"

lemmas error_constructors [accessors] = invalid_def delivery_def delivery_caused_by_def

text \<open>Which of the three kinds of failure an error is, as \<^verbatim>\<open>matches!\<close> tests it.\<close>

fun is_invalid_request :: "'e IncidentError \<Rightarrow> bool" where
  "is_invalid_request (InvalidRequest _) = True"
| "is_invalid_request _ = False"

fun is_delivery :: "'e IncidentError \<Rightarrow> bool" where
  "is_delivery (Delivery _ _ _ _) = True"
| "is_delivery _ = False"

lemma is_retryable_delivery: "is_retryable e \<Longrightarrow> is_delivery e"
  by (cases e) auto

lemma is_invalid_request_iff: "is_invalid_request e \<longleftrightarrow> (\<exists>m. e = InvalidRequest m)"
  by (cases e) auto

end
