(* ===== verification/Severity.thy ===== *)
theory Severity
  imports Incident_Error
begin

text \<open>
  \<^verbatim>\<open>src/rust/src/severity.rs\<close>: the five severities, their wire values and names, and the
  derived order.
\<close>

datatype Severity = Lowest | Low | Medium | High | Critical

fun severity_value :: "Severity \<Rightarrow> u8" where
  "severity_value Lowest = 1"
| "severity_value Low = 2"
| "severity_value Medium = 3"
| "severity_value High = 4"
| "severity_value Critical = 5"

definition from_value :: "u8 \<Rightarrow> (Severity, 'e IncidentError) result" where
  "from_value v =
     (if v = 1 then Inr Lowest
      else if v = 2 then Inr Low
      else if v = 3 then Inr Medium
      else if v = 4 then Inr High
      else if v = 5 then Inr Critical
      else Inl (invalid (lit ''severity must be between 1 and 5'')))"

fun severity_to_string :: "Severity \<Rightarrow> rstring" where
  "severity_to_string Lowest = lit ''LOWEST''"
| "severity_to_string Low = lit ''LOW''"
| "severity_to_string Medium = lit ''MEDIUM''"
| "severity_to_string High = lit ''HIGH''"
| "severity_to_string Critical = lit ''CRITICAL''"

text \<open>
  \<^verbatim>\<open>derive(PartialOrd, Ord)\<close> orders the variants as they are declared; \<open>discriminant\<close> is
  that position.
\<close>

fun discriminant :: "Severity \<Rightarrow> nat" where
  "discriminant Lowest = 0"
| "discriminant Low = 1"
| "discriminant Medium = 2"
| "discriminant High = 3"
| "discriminant Critical = 4"

lemma discriminant_inject [simp]: "discriminant a = discriminant b \<longleftrightarrow> a = b"
  by (cases a; cases b) auto

instantiation Severity :: linorder
begin

definition less_eq_Severity :: "Severity \<Rightarrow> Severity \<Rightarrow> bool" where
  "less_eq_Severity a b \<longleftrightarrow> discriminant a \<le> discriminant b"

definition less_Severity :: "Severity \<Rightarrow> Severity \<Rightarrow> bool" where
  "less_Severity a b \<longleftrightarrow> discriminant a < discriminant b"

instance
  by standard (auto simp: less_eq_Severity_def less_Severity_def)

end

lemma severity_value_discriminant: "unat (severity_value s) = Suc (discriminant s)"
  by (cases s) auto

lemma severity_value_range: "1 \<le> severity_value s" "severity_value s \<le> 5"
  by (cases s; simp)+

lemma severity_value_inject [simp]: "severity_value a = severity_value b \<longleftrightarrow> a = b"
  by (metis severity_value_discriminant discriminant_inject nat.inject)

text \<open>
  \<^verbatim>\<open>from_value\<close> inverts \<^verbatim>\<open>value\<close>: it succeeds with a severity exactly when the byte is
  that severity's wire value, so the two are inverse on the scale and every other byte
  (0, and 6 up to 255) is an error.
\<close>

theorem from_value_inverts_value:
  "(from_value v :: (Severity, 'e IncidentError) result) = Inr s \<longleftrightarrow> v = severity_value s"
  by (cases s) (auto simp: from_value_def split: if_splits)

lemma from_value_error:
  "from_value v = Inl e \<longleftrightarrow>
     \<not> (1 \<le> v \<and> v \<le> 5) \<and> e = InvalidRequest (lit ''severity must be between 1 and 5'')"
proof -
  have range: "1 \<le> v \<and> v \<le> 5 \<longleftrightarrow> v = 1 \<or> v = 2 \<or> v = 3 \<or> v = 4 \<or> v = 5"
  proof
    assume v: "1 \<le> v \<and> v \<le> 5"
    then have "1 \<le> unat v" "unat v \<le> 5" by (simp_all add: word_le_nat_alt)
    then have "unat v = 1 \<or> unat v = 2 \<or> unat v = 3 \<or> unat v = 4 \<or> unat v = 5" by arith
    then show "v = 1 \<or> v = 2 \<or> v = 3 \<or> v = 4 \<or> v = 5"
      by (simp add: word_unat_eq_iff)
  qed auto
  show ?thesis
    unfolding range by (auto simp: from_value_def invalid_def)
qed

text \<open>
  The derived order on severities is the order of their wire values.
\<close>

theorem severity_order_is_value_order: "a < b \<longleftrightarrow> severity_value a < severity_value b"
  by (simp add: less_Severity_def word_less_nat_alt severity_value_discriminant)

end
