(* ===== verification/Request.thy ===== *)
theory Request
  imports Severity
begin

text \<open>
  \<^verbatim>\<open>src/rust/src/request.rs\<close>: the incident request, its builder and the validation in
  \<^verbatim>\<open>build\<close>. The system clock is an argument: its offset from the Unix epoch in
  nanoseconds, negative for a clock set before 1970.
\<close>

definition MAX_SOURCE_LENGTH :: nat where
  "MAX_SOURCE_LENGTH = 255"

record IncidentRequest =
  rq_service_key :: "rstring option"
  rq_title :: rstring
  rq_source :: rstring
  rq_severity :: Severity
  rq_priority :: u8
  rq_src_timestamp :: int
  rq_component :: "rstring option"
  rq_group :: "rstring option"
  rq_incident_type :: "rstring option"
  rq_details :: "rstring option"

record IncidentRequestBuilder =
  b_service_key :: "rstring option"
  b_title :: "rstring option"
  b_source :: "rstring option"
  b_severity :: "Severity option"
  b_priority :: "u8 option"
  b_src_timestamp :: "int option"
  b_component :: "rstring option"
  b_group :: "rstring option"
  b_incident_type :: "rstring option"
  b_details :: "rstring option"

subsection \<open>Getters\<close>

definition service_key :: "IncidentRequest \<Rightarrow> rstring option" where
  "service_key r = rq_service_key r"

definition title :: "IncidentRequest \<Rightarrow> rstring" where
  "title r = rq_title r"

definition source :: "IncidentRequest \<Rightarrow> rstring" where
  "source r = rq_source r"

definition severity :: "IncidentRequest \<Rightarrow> Severity" where
  "severity r = rq_severity r"

definition priority :: "IncidentRequest \<Rightarrow> u8" where
  "priority r = rq_priority r"

definition src_timestamp :: "IncidentRequest \<Rightarrow> int" where
  "src_timestamp r = rq_src_timestamp r"

definition component :: "IncidentRequest \<Rightarrow> rstring option" where
  "component r = rq_component r"

definition group :: "IncidentRequest \<Rightarrow> rstring option" where
  "group r = rq_group r"

definition incident_type :: "IncidentRequest \<Rightarrow> rstring option" where
  "incident_type r = rq_incident_type r"

definition details :: "IncidentRequest \<Rightarrow> rstring option" where
  "details r = rq_details r"

lemmas request_accessors [accessors] =
  service_key_def title_def source_def severity_def priority_def src_timestamp_def
  component_def group_def incident_type_def details_def

subsection \<open>The builder\<close>

definition request_builder :: IncidentRequestBuilder where
  "request_builder =
     \<lparr>b_service_key = None, b_title = None, b_source = None, b_severity = None, b_priority = None,
      b_src_timestamp = None, b_component = None, b_group = None, b_incident_type = None,
      b_details = None\<rparr>"

definition with_title :: "rstring \<Rightarrow> IncidentRequestBuilder \<Rightarrow> IncidentRequestBuilder" where
  "with_title v b = b\<lparr>b_title := Some v\<rparr>"

definition with_source :: "rstring \<Rightarrow> IncidentRequestBuilder \<Rightarrow> IncidentRequestBuilder" where
  "with_source v b = b\<lparr>b_source := Some v\<rparr>"

definition with_severity :: "Severity \<Rightarrow> IncidentRequestBuilder \<Rightarrow> IncidentRequestBuilder" where
  "with_severity v b = b\<lparr>b_severity := Some v\<rparr>"

definition with_priority :: "u8 \<Rightarrow> IncidentRequestBuilder \<Rightarrow> IncidentRequestBuilder" where
  "with_priority v b = b\<lparr>b_priority := Some v\<rparr>"

definition with_src_timestamp :: "int \<Rightarrow> IncidentRequestBuilder \<Rightarrow> IncidentRequestBuilder" where
  "with_src_timestamp v b = b\<lparr>b_src_timestamp := Some v\<rparr>"

definition with_service_key :: "rstring \<Rightarrow> IncidentRequestBuilder \<Rightarrow> IncidentRequestBuilder" where
  "with_service_key v b = b\<lparr>b_service_key := Some v\<rparr>"

definition with_component :: "rstring \<Rightarrow> IncidentRequestBuilder \<Rightarrow> IncidentRequestBuilder" where
  "with_component v b = b\<lparr>b_component := Some v\<rparr>"

definition with_group :: "rstring \<Rightarrow> IncidentRequestBuilder \<Rightarrow> IncidentRequestBuilder" where
  "with_group v b = b\<lparr>b_group := Some v\<rparr>"

definition with_incident_type :: "rstring \<Rightarrow> IncidentRequestBuilder \<Rightarrow> IncidentRequestBuilder" where
  "with_incident_type v b = b\<lparr>b_incident_type := Some v\<rparr>"

definition with_details :: "rstring \<Rightarrow> IncidentRequestBuilder \<Rightarrow> IncidentRequestBuilder" where
  "with_details v b = b\<lparr>b_details := Some v\<rparr>"

lemmas builder_setters [accessors] =
  request_builder_def with_title_def with_source_def with_severity_def with_priority_def
  with_src_timestamp_def with_service_key_def with_component_def with_group_def
  with_incident_type_def with_details_def

subsection \<open>Validation\<close>

definition require_non_blank :: "rstring option \<Rightarrow> rstring \<Rightarrow> (rstring, 'e IncidentError) result" where
  "require_non_blank value field =
     (case value of
        Some v \<Rightarrow> if \<not> is_blank v then Inr v else Inl (invalid (field @ lit '' must not be blank''))
      | None \<Rightarrow> Inl (invalid (field @ lit '' must be set'')))"

definition reject_blank ::
  "rstring option \<Rightarrow> rstring \<Rightarrow> (rstring option, 'e IncidentError) result" where
  "reject_blank value field =
     (case value of
        Some v \<Rightarrow> if is_blank v then Inl (invalid (field @ lit '' must not be blank when supplied''))
                  else Inr (Some v)
      | None \<Rightarrow> Inr None)"

text \<open>
  \<^verbatim>\<open>duration_since(UNIX_EPOCH)\<close> fails before the epoch; \<^verbatim>\<open>as_millis\<close> truncates; a value
  past \<^verbatim>\<open>i64::MAX\<close> fails to convert.
\<close>

definition now_millis :: "int \<Rightarrow> int" where
  "now_millis clock =
     unwrap_or
       (Option.bind (if 0 \<le> clock then Some (clock div 1000000) else None) i64_try_from) 0"

definition build :: "int \<Rightarrow> IncidentRequestBuilder \<Rightarrow> (IncidentRequest, 'e IncidentError) result" where
  "build clock b =
     tryr (require_non_blank (b_title b) (lit ''title'')) (\<lambda>title.
     tryr (require_non_blank (b_source b) (lit ''source'')) (\<lambda>source.
     if MAX_SOURCE_LENGTH < length source
     then Inl (invalid (lit ''source must not exceed '' @ show_nat MAX_SOURCE_LENGTH @ lit '' characters''))
     else
     tryr (case b_severity b of None \<Rightarrow> Inl (invalid (lit ''severity must be set'')) | Some s \<Rightarrow> Inr s)
       (\<lambda>severity.
     let priority = unwrap_or (b_priority b) 1 in
     if \<not> (1 \<le> priority \<and> priority \<le> 5)
     then Inl (invalid (lit ''priority must be between 1 and 5''))
     else
     let src_timestamp = (case b_src_timestamp b of Some timestamp \<Rightarrow> timestamp | None \<Rightarrow> now_millis clock) in
     if src_timestamp \<le> 0
     then Inl (invalid (lit ''srcTimestamp must be greater than zero''))
     else
     tryr (reject_blank (b_service_key b) (lit ''serviceKey'')) (\<lambda>service_key.
     tryr (reject_blank (b_component b) (lit ''component'')) (\<lambda>component.
     tryr (reject_blank (b_group b) (lit ''group'')) (\<lambda>group.
     tryr (reject_blank (b_incident_type b) (lit ''type'')) (\<lambda>incident_type.
     tryr (reject_blank (b_details b) (lit ''details'')) (\<lambda>details.
     Inr \<lparr>rq_service_key = service_key, rq_title = title, rq_source = source, rq_severity = severity,
          rq_priority = priority, rq_src_timestamp = src_timestamp, rq_component = component,
          rq_group = group, rq_incident_type = incident_type, rq_details = details\<rparr>))))))))"

subsection \<open>The documented rules, and what \<^verbatim>\<open>build\<close> makes of them\<close>

text \<open>
  The rules of the \<^verbatim>\<open>build\<close> documentation as the list of the complaints a builder
  deserves, in the order of the fields, and the request a builder without complaints asks for.
\<close>

definition required_problem :: "rstring option \<Rightarrow> rstring \<Rightarrow> rstring list" where
  "required_problem value field =
     (case value of
        None \<Rightarrow> [field @ lit '' must be set'']
      | Some v \<Rightarrow> if is_blank v then [field @ lit '' must not be blank''] else [])"

definition optional_problem :: "rstring option \<Rightarrow> rstring \<Rightarrow> rstring list" where
  "optional_problem value field =
     (case value of
        None \<Rightarrow> []
      | Some v \<Rightarrow> if is_blank v then [field @ lit '' must not be blank when supplied''] else [])"

definition effective_timestamp :: "int \<Rightarrow> IncidentRequestBuilder \<Rightarrow> int" where
  "effective_timestamp clock b = unwrap_or (b_src_timestamp b) (now_millis clock)"

definition problems :: "int \<Rightarrow> IncidentRequestBuilder \<Rightarrow> rstring list" where
  "problems clock b =
     required_problem (b_title b) (lit ''title'') @
     required_problem (b_source b) (lit ''source'') @
     (if MAX_SOURCE_LENGTH < length (unwrap_or (b_source b) [])
      then [lit ''source must not exceed '' @ show_nat MAX_SOURCE_LENGTH @ lit '' characters''] else []) @
     (if b_severity b = None then [lit ''severity must be set''] else []) @
     (if unwrap_or (b_priority b) 1 \<in> {1..5} then [] else [lit ''priority must be between 1 and 5'']) @
     (if effective_timestamp clock b \<le> 0 then [lit ''srcTimestamp must be greater than zero''] else []) @
     optional_problem (b_service_key b) (lit ''serviceKey'') @
     optional_problem (b_component b) (lit ''component'') @
     optional_problem (b_group b) (lit ''group'') @
     optional_problem (b_incident_type b) (lit ''type'') @
     optional_problem (b_details b) (lit ''details'')"

definition requested :: "int \<Rightarrow> IncidentRequestBuilder \<Rightarrow> IncidentRequest" where
  "requested clock b =
     \<lparr>rq_service_key = b_service_key b, rq_title = unwrap_or (b_title b) [],
      rq_source = unwrap_or (b_source b) [], rq_severity = unwrap_or (b_severity b) Lowest,
      rq_priority = unwrap_or (b_priority b) 1, rq_src_timestamp = effective_timestamp clock b,
      rq_component = b_component b, rq_group = b_group b, rq_incident_type = b_incident_type b,
      rq_details = b_details b\<rparr>"

text \<open>Each check of the code, against the complaint it stands for.\<close>

lemma require_non_blank_problem:
  "require_non_blank value field =
     (case required_problem value field of [] \<Rightarrow> Inr (unwrap_or value []) | m # _ \<Rightarrow> Inl (InvalidRequest m))"
  by (simp add: require_non_blank_def required_problem_def invalid_def split: option.splits)

lemma reject_blank_problem:
  "reject_blank value field =
     (case optional_problem value field of [] \<Rightarrow> Inr value | m # _ \<Rightarrow> Inl (InvalidRequest m))"
  by (simp add: reject_blank_def optional_problem_def invalid_def split: option.splits)

text \<open>
  Running a check and then the rest, when both are "first complaint or go on": the first
  complaint of the concatenation.
\<close>

definition first_complaint :: "rstring list \<Rightarrow> 'a \<Rightarrow> ('a, 'e IncidentError) result" where
  "first_complaint ms x = (case ms of [] \<Rightarrow> Inr x | m # _ \<Rightarrow> Inl (InvalidRequest m))"

lemma first_complaint_Nil [simp]: "first_complaint [] x = Inr x"
  by (simp add: first_complaint_def)

lemma first_complaint_Cons [simp]: "first_complaint (m # ms) x = Inl (InvalidRequest m)"
  by (simp add: first_complaint_def)

lemma tryr_first_complaint:
  assumes "f x = first_complaint ns y"
  shows "tryr (first_complaint ms x) f = first_complaint (ms @ ns) y"
  using assms by (cases ms) (simp_all add: first_complaint_def)

lemma if_first_complaint:
  assumes "r = first_complaint ns y"
  shows "(if c then Inl (InvalidRequest m) else r) = first_complaint ((if c then [m] else []) @ ns) y"
  using assms by simp

lemma severity_complaint:
  "(case s of None \<Rightarrow> Inl (InvalidRequest m) | Some v \<Rightarrow> Inr v) =
     first_complaint (if s = None then [m] else []) (unwrap_or s Lowest)"
  by (cases s) simp_all

lemma build_first_complaint: "build clock b = first_complaint (problems clock b) (requested clock b)"
proof -
  have prio: "(unwrap_or (b_priority b) 1 \<in> {1..5}) = (1 \<le> unwrap_or (b_priority b) 1 \<and> unwrap_or (b_priority b) 1 \<le> 5)"
    by simp
  have ts: "(case b_src_timestamp b of Some timestamp \<Rightarrow> timestamp | None \<Rightarrow> now_millis clock) = effective_timestamp clock b"
    by (cases "b_src_timestamp b") (simp_all add: effective_timestamp_def)
  have neg: "(if c then [] else [m]) = (if \<not> c then [m] else [])" for c and m :: rstring
    by simp
  show ?thesis
    unfolding build_def problems_def require_non_blank_problem reject_blank_problem
      first_complaint_def [symmetric] invalid_def severity_complaint Let_def ts prio neg
    by (intro tryr_first_complaint if_first_complaint)
      (simp add: requested_def first_complaint_def split: list.split)
qed

fun nonblank_if_set :: "rstring option \<Rightarrow> bool" where
  "nonblank_if_set None = True"
| "nonblank_if_set (Some s) = (\<not> is_blank s)"

lemma optional_problem_Nil [simp]: "optional_problem v field = [] \<longleftrightarrow> nonblank_if_set v"
  by (cases v) (simp_all add: optional_problem_def)

lemma problems_Nil_iff:
  "problems clock b = [] \<longleftrightarrow>
     (\<exists>t. b_title b = Some t \<and> \<not> is_blank t) \<and>
     (\<exists>s. b_source b = Some s \<and> \<not> is_blank s \<and> length s \<le> MAX_SOURCE_LENGTH) \<and>
     b_severity b \<noteq> None \<and> unwrap_or (b_priority b) 1 \<in> {1..5} \<and> 0 < effective_timestamp clock b \<and>
     list_all nonblank_if_set [b_service_key b, b_component b, b_group b, b_incident_type b, b_details b]"
  by (auto simp: problems_def required_problem_def optional_problem_Nil split: option.splits if_splits)

text \<open>
  C21. \<^verbatim>\<open>build\<close> decides validity exactly: with no rule broken it returns the requested fields
  (with priority 1 and the current time as defaults), otherwise it returns
  \<^verbatim>\<open>InvalidRequest\<close> with the message of the first broken rule.
\<close>

theorem build_reports_first_problem:
  "build clock b =
     (case problems clock b of
        [] \<Rightarrow> Inr (requested clock b)
      | message # _ \<Rightarrow> Inl (InvalidRequest message))"
  by (simp add: build_first_complaint first_complaint_def)

text \<open>The type invariant of a request: what every value a caller can hold satisfies.\<close>

definition wf_request :: "IncidentRequest \<Rightarrow> bool" where
  "wf_request r \<longleftrightarrow>
     \<not> is_blank (rq_title r) \<and> \<not> is_blank (rq_source r) \<and> length (rq_source r) \<le> 255 \<and>
     1 \<le> rq_priority r \<and> rq_priority r \<le> 5 \<and>
     0 < rq_src_timestamp r \<and> rq_src_timestamp r < 2 ^ 63 \<and>
     list_all nonblank_if_set
       [rq_service_key r, rq_component r, rq_group r, rq_incident_type r, rq_details r]"

lemma now_millis_range: "0 \<le> now_millis clock \<and> now_millis clock < 2 ^ 63"
  by (auto simp: now_millis_def i64_try_from_def div_int_pos_iff split: if_splits)

lemma effective_timestamp_i64:
  assumes "\<And>t. b_src_timestamp b = Some t \<Longrightarrow> t < 2 ^ 63"
  shows "effective_timestamp clock b < 2 ^ 63"
  using assms now_millis_range [of clock] by (cases "b_src_timestamp b") (auto simp: effective_timestamp_def)

lemma build_eq_Inr: "build clock b = Inr r \<longleftrightarrow> problems clock b = [] \<and> r = requested clock b"
  by (auto simp: build_first_complaint first_complaint_def split: list.splits)

text \<open>
  C24. Every request that \<^verbatim>\<open>build\<close> returns satisfies the type invariant: non-blank title and
  source of at most 255 characters, priority 1 to 5, a positive 64-bit timestamp, and no
  blank optional field. The hypothesis says that the builder's timestamp is an \<^verbatim>\<open>i64\<close>.
\<close>

theorem build_wf:
  assumes "\<And>t. b_src_timestamp b = Some t \<Longrightarrow> t < 2 ^ 63"
    and "build clock b = Inr r"
  shows "wf_request r"
proof -
  have ok: "problems clock b = []" and r: "r = requested clock b"
    using assms(2) by (simp_all add: build_eq_Inr)
  from ok show ?thesis
    using effective_timestamp_i64 [of b clock, OF assms(1)]
    unfolding problems_Nil_iff
    by (auto simp: wf_request_def r requested_def MAX_SOURCE_LENGTH_def split: option.splits)
qed

text \<open>Handing a request's own fields to the builder again.\<close>

definition set_optional :: "('a \<Rightarrow> 'b \<Rightarrow> 'b) \<Rightarrow> 'a option \<Rightarrow> 'b \<Rightarrow> 'b" where
  "set_optional setter value b = (case value of None \<Rightarrow> b | Some v \<Rightarrow> setter v b)"

definition rebuild :: "IncidentRequest \<Rightarrow> IncidentRequestBuilder" where
  "rebuild r =
     set_optional with_details (details r) (
     set_optional with_incident_type (incident_type r) (
     set_optional with_group (group r) (
     set_optional with_component (component r) (
     set_optional with_service_key (service_key r) (
     with_src_timestamp (src_timestamp r) (
     with_priority (priority r) (
     with_severity (severity r) (
     with_source (source r) (
     with_title (title r) request_builder)))))))))"

lemma rebuild_fields:
  "rebuild r =
     \<lparr>b_service_key = rq_service_key r, b_title = Some (rq_title r), b_source = Some (rq_source r),
      b_severity = Some (rq_severity r), b_priority = Some (rq_priority r),
      b_src_timestamp = Some (rq_src_timestamp r), b_component = rq_component r,
      b_group = rq_group r, b_incident_type = rq_incident_type r, b_details = rq_details r\<rparr>"
  by (simp add: rebuild_def set_optional_def accessors split: option.split)

text \<open>
  C25. Setters, \<^verbatim>\<open>build\<close> and getters round-trip: giving the builder the getters of a request
  that satisfies the invariant rebuilds the same request, at any reading of the clock.
\<close>

theorem rebuild_roundtrip:
  assumes "wf_request r"
  shows "build clock (rebuild r) = Inr r"
proof -
  have "problems clock (rebuild r) = []"
    using assms unfolding problems_Nil_iff
    by (auto simp: rebuild_fields wf_request_def effective_timestamp_def MAX_SOURCE_LENGTH_def)
  moreover have "requested clock (rebuild r) = r"
    by (simp add: requested_def rebuild_fields effective_timestamp_def)
  ultimately show ?thesis by (simp add: build_eq_Inr)
qed

text \<open>The concrete requests of the witnesses.\<close>

definition sample_builder :: IncidentRequestBuilder where
  "sample_builder =
     with_group (lit ''payments'') (with_src_timestamp 1700000000000 (with_severity High (
       with_source (lit ''checkout-api'') (with_title (lit ''Checkout latency'') request_builder))))"

definition sample_request :: IncidentRequest where
  "sample_request = requested 0 sample_builder"

lemmas sample_defs = sample_request_def sample_builder_def requested_def effective_timestamp_def

lemma sample_build: "build 0 sample_builder = Inr sample_request"
  by (simp add: build_eq_Inr problems_Nil_iff sample_defs accessors literals is_whitespace_def
      MAX_SOURCE_LENGTH_def)

theorem build_wf_witness: "wf_request sample_request"
  by (rule build_wf [of sample_builder 0])
    (auto simp: sample_build, simp add: sample_builder_def accessors)

lemma sample_request_wf: "wf_request sample_request"
  by (simp add: wf_request_def sample_defs accessors literals is_whitespace_def)

theorem rebuild_roundtrip_witness:
  "wf_request sample_request \<and> build 5 (rebuild sample_request) = Inr sample_request"
  using rebuild_roundtrip [OF sample_request_wf, of 5] sample_request_wf by simp

end
