(* ===== verification/Response.thy ===== *)
theory Response
  imports Prelude
begin

text \<open>\<^verbatim>\<open>src/rust/src/response.rs\<close>: the result of a delivered incident and its getters.\<close>

record IncidentResponse =
  rs_successful :: bool
  rs_code :: int
  rs_message :: "rstring option"
  rs_incident_id :: "rstring option"

definition response_new :: "bool \<Rightarrow> int \<Rightarrow> rstring option \<Rightarrow> rstring option \<Rightarrow> IncidentResponse" where
  "response_new successful code message incident_id =
     \<lparr>rs_successful = successful, rs_code = code, rs_message = message, rs_incident_id = incident_id\<rparr>"

definition is_successful :: "IncidentResponse \<Rightarrow> bool" where
  "is_successful r = rs_successful r"

definition response_code :: "IncidentResponse \<Rightarrow> int" where
  "response_code r = rs_code r"

definition response_message :: "IncidentResponse \<Rightarrow> rstring option" where
  "response_message r = rs_message r"

definition incident_id :: "IncidentResponse \<Rightarrow> rstring option" where
  "incident_id r = rs_incident_id r"

lemmas response_accessors [accessors] =
  response_new_def is_successful_def response_code_def response_message_def incident_id_def

end
