(* ===== verification/Json_Reader.thy ===== *)
theory Json_Reader
  imports Prelude
begin

text \<open>
  The receiver's view of a payload: a reader of JSON objects with scalar members (RFC 8259
  strings with every escape, integers, \<^verbatim>\<open>true\<close>, \<^verbatim>\<open>false\<close>, \<^verbatim>\<open>null\<close>), against which the
  hand-built request text of \<^verbatim>\<open>wire.rs\<close> is judged. It models no code of the repository: it
  is the specification of the text format. The interface \<open>json_quoting\<close> states what the SDK
  relies on \<^verbatim>\<open>serde_json\<close> for when it renders a string.
\<close>

datatype jvalue = JNull | JBool bool | JInt int | JStr rstring | JObj "(rstring \<times> jvalue) list"

definition hex_digit :: "rchar \<Rightarrow> nat option" where
  "hex_digit c =
     (if 48 \<le> c \<and> c \<le> 57 then Some (c - 48)
      else if 97 \<le> c \<and> c \<le> 102 then Some (c - 87)
      else if 65 \<le> c \<and> c \<le> 70 then Some (c - 55)
      else None)"

definition hex4 :: "rstring \<Rightarrow> (nat \<times> rstring) option" where
  "hex4 s =
     (case s of
        a # b # c # d # rest \<Rightarrow>
          (case (hex_digit a, hex_digit b, hex_digit c, hex_digit d) of
             (Some a, Some b, Some c, Some d) \<Rightarrow> Some (((a * 16 + b) * 16 + c) * 16 + d, rest)
           | _ \<Rightarrow> None)
      | _ \<Rightarrow> None)"

text \<open>A \<^verbatim>\<open>\u\<close> escape: one unit, or a surrogate pair for a code point past U+FFFF.\<close>

definition unicode_escape :: "rstring \<Rightarrow> (rchar \<times> rstring) option" where
  "unicode_escape s =
     (case hex4 s of
        None \<Rightarrow> None
      | Some (u, rest) \<Rightarrow>
          if u < 55296 \<or> 57344 \<le> u then Some (u, rest)
          else if 56320 \<le> u then None
          else (case rest of
                  b # e # rest' \<Rightarrow>
                    (case hex4 rest' of
                       Some (l, rest'') \<Rightarrow>
                         if b = 92 \<and> e = 117 \<and> 56320 \<le> l \<and> l < 57344
                         then Some (65536 + (u - 55296) * 1024 + (l - 56320), rest'') else None
                     | None \<Rightarrow> None)
                | _ \<Rightarrow> None))"

text \<open>What follows a backslash.\<close>

definition unescape :: "rstring \<Rightarrow> (rchar \<times> rstring) option" where
  "unescape s =
     (case s of
        [] \<Rightarrow> None
      | e # rest \<Rightarrow>
          if e = 34 \<or> e = 92 \<or> e = 47 then Some (e, rest)
          else if e = 98 then Some (8, rest)
          else if e = 102 then Some (12, rest)
          else if e = 110 then Some (10, rest)
          else if e = 114 then Some (13, rest)
          else if e = 116 then Some (9, rest)
          else if e = 117 then unicode_escape rest
          else None)"

lemma hex4_shorter: "hex4 s = Some (u, rest) \<Longrightarrow> length rest < length s"
  by (auto simp: hex4_def split: list.splits option.splits)

lemma unicode_escape_shorter: "unicode_escape s = Some (c, rest) \<Longrightarrow> length rest < length s"
  by (auto simp: unicode_escape_def split: option.splits if_splits list.splits dest!: hex4_shorter)

lemma unescape_shorter: "unescape s = Some (c, rest) \<Longrightarrow> length rest < length s"
  by (auto simp: unescape_def split: list.splits if_splits dest: unicode_escape_shorter)

text \<open>The characters of a string literal up to its closing quote, and the literal itself.\<close>

function scan_chars :: "rstring \<Rightarrow> (rstring \<times> rstring) option" where
  "scan_chars [] = None"
| "scan_chars (c # cs) =
     (if c = 34 then Some ([], cs)
      else if c = 92 then
        (case unescape cs of
           None \<Rightarrow> None
         | Some (x, rest) \<Rightarrow> map_option (\<lambda>(s, r). (x # s, r)) (scan_chars rest))
      else if c < 32 then None
      else map_option (\<lambda>(s, r). (c # s, r)) (scan_chars cs))"
  by pat_completeness auto
termination
  by (relation "measure length") (auto dest: unescape_shorter)

definition scan_string :: "rstring \<Rightarrow> (rstring \<times> rstring) option" where
  "scan_string s = (case s of [] \<Rightarrow> None | q # cs \<Rightarrow> if q = 34 then scan_chars cs else None)"

definition is_json_space :: "rchar \<Rightarrow> bool" where
  "is_json_space c \<longleftrightarrow> c = 32 \<or> c = 9 \<or> c = 10 \<or> c = 13"

definition skip_space :: "rstring \<Rightarrow> rstring" where
  "skip_space s = dropWhile is_json_space s"

text \<open>An integer without superfluous leading zeros; a fraction or an exponent is refused.\<close>

definition scan_nat :: "rstring \<Rightarrow> (nat \<times> rstring) option" where
  "scan_nat s =
     (let ds = takeWhile is_digit s; rest = dropWhile is_digit s in
      if ds = [] \<or> (hd ds = 48 \<and> ds \<noteq> [48]) \<or> (rest \<noteq> [] \<and> hd rest \<in> {46, 69, 101}) then None
      else Some (digits_value 0 ds, rest))"

definition scan_int :: "rstring \<Rightarrow> (int \<times> rstring) option" where
  "scan_int s =
     (if s \<noteq> [] \<and> hd s = 45 then map_option (\<lambda>(n, r). (- int n, r)) (scan_nat (tl s))
      else map_option (\<lambda>(n, r). (int n, r)) (scan_nat s))"

definition scan_word :: "rstring \<Rightarrow> jvalue \<Rightarrow> rstring \<Rightarrow> (jvalue \<times> rstring) option" where
  "scan_word w v s = (if take (length w) s = w then Some (v, drop (length w) s) else None)"

definition scan_scalar :: "rstring \<Rightarrow> (jvalue \<times> rstring) option" where
  "scan_scalar s =
     (case s of
        [] \<Rightarrow> None
      | c # _ \<Rightarrow>
          if c = 34 then map_option (\<lambda>(x, r). (JStr x, r)) (scan_string s)
          else if c = 116 then scan_word (lit ''true'') (JBool True) s
          else if c = 102 then scan_word (lit ''false'') (JBool False) s
          else if c = 110 then scan_word (lit ''null'') JNull s
          else map_option (\<lambda>(i, r). (JInt i, r)) (scan_int s))"

text \<open>
  The members of an object from the first name on; one unit of fuel per member, so the
  length of the text is enough.
\<close>

fun scan_members :: "nat \<Rightarrow> rstring \<Rightarrow> ((rstring \<times> jvalue) list \<times> rstring) option" where
  "scan_members 0 s = None"
| "scan_members (Suc fuel) s =
     (case scan_string (skip_space s) of
        None \<Rightarrow> None
      | Some (name, s1) \<Rightarrow>
          (case skip_space s1 of
             [] \<Rightarrow> None
           | colon # s2 \<Rightarrow>
               if colon \<noteq> 58 then None
               else (case scan_scalar (skip_space s2) of
                       None \<Rightarrow> None
                     | Some (v, s3) \<Rightarrow>
                         (case skip_space s3 of
                            [] \<Rightarrow> None
                          | c # s4 \<Rightarrow>
                              if c = 125 then Some ([(name, v)], s4)
                              else if c = 44 then
                                map_option (\<lambda>(ms, r). ((name, v) # ms, r)) (scan_members fuel s4)
                              else None))))"

definition read_object :: "rstring \<Rightarrow> (rstring \<times> jvalue) list option" where
  "read_object text =
     (case skip_space text of
        [] \<Rightarrow> None
      | c # s \<Rightarrow>
          if c \<noteq> 123 then None
          else (case skip_space s of
                  [] \<Rightarrow> None
                | d # r \<Rightarrow>
                    if d = 125 then (if skip_space r = [] then Some [] else None)
                    else (case scan_members (length text) s of
                            Some (ms, r) \<Rightarrow> if skip_space r = [] then Some ms else None
                          | None \<Rightarrow> None)))"

subsection \<open>Scanning back what was rendered\<close>

lemma skip_space_Cons [simp]: "\<not> is_json_space c \<Longrightarrow> skip_space (c # s) = c # s"
  by (simp add: skip_space_def)

lemma skip_space_Nil [simp]: "skip_space [] = []"
  by (simp add: skip_space_def)

lemma show_nat_takeWhile:
  assumes "rest = [] \<or> \<not> is_digit (hd rest)"
  shows "takeWhile is_digit (show_nat n @ rest) = show_nat n" (is ?take)
    and "dropWhile is_digit (show_nat n @ rest) = rest" (is ?drop)
proof -
  have all: "\<forall>c\<in>set (show_nat n). is_digit c" using show_nat_digits by blast
  have "takeWhile is_digit rest = []" and "dropWhile is_digit rest = rest"
    using assms by (cases rest; auto)+
  with all show ?take ?drop by (simp_all add: takeWhile_append2 dropWhile_append2)
qed

lemma show_nat_leading_zero: "hd (show_nat n) = 48 \<Longrightarrow> show_nat n = [48]"
proof (induction n rule: show_nat.induct)
  case (1 n)
  show ?case
  proof (cases "n < 10")
    case True
    with "1.prems" have "n = 0" by (simp add: show_nat.simps [of n])
    then show ?thesis by (simp add: show_nat.simps)
  next
    case False
    then have n: "show_nat n = show_nat (n div 10) @ [48 + n mod 10]" by (simp add: show_nat.simps [of n])
    with "1.prems" have "hd (show_nat (n div 10)) = 48" by simp
    with "1.IH" False have "show_nat (n div 10) = [48]" by simp
    then have "digits_value 0 (show_nat (n div 10)) = 0" by simp
    then have "n div 10 = 0" by (simp only: digits_value_show_nat)
    with False show ?thesis by simp
  qed
qed

lemma scan_nat_show_nat:
  assumes "rest = [] \<or> (\<not> is_digit (hd rest) \<and> hd rest \<notin> {46, 69, 101})"
  shows "scan_nat (show_nat n @ rest) = Some (n, rest)"
proof -
  have "rest = [] \<or> \<not> is_digit (hd rest)" using assms by auto
  note show_nat_takeWhile [OF this, of n]
  then show ?thesis using assms show_nat_leading_zero [of n] by (auto simp: scan_nat_def Let_def)
qed

lemma hd_show_nat_digit: "is_digit (hd (show_nat n))"
  by (meson hd_in_set show_nat_digits show_nat_nonempty)

lemma scan_int_show_int:
  assumes "rest = [] \<or> (\<not> is_digit (hd rest) \<and> hd rest \<notin> {46, 69, 101})"
  shows "scan_int (show_int i @ rest) = Some (i, rest)"
proof -
  have "hd (show_nat n) \<noteq> 45" for n
    using hd_show_nat_digit [of n] by (auto simp: is_digit_def)
  then show ?thesis
    using scan_nat_show_nat [OF assms] by (simp add: scan_int_def show_int_def)
qed

lemma show_int_hd: "show_int i \<noteq> [] \<and> (hd (show_int i) = 45 \<or> is_digit (hd (show_int i)))"
  using hd_show_nat_digit by (simp add: show_int_def)

lemma scan_scalar_show_int:
  assumes "rest = [] \<or> (\<not> is_digit (hd rest) \<and> hd rest \<notin> {46, 69, 101})"
  shows "scan_scalar (skip_space (show_int i @ rest)) = Some (JInt i, rest)"
proof -
  obtain c cs where c: "show_int i = c # cs" and "c = 45 \<or> is_digit c"
    using show_int_hd [of i] by (metis list.exhaust list.sel(1))
  then have "skip_space (show_int i @ rest) = show_int i @ rest"
    by (auto simp: is_json_space_def is_digit_def)
  moreover have "c \<noteq> 34" "c \<noteq> 116" "c \<noteq> 102" "c \<noteq> 110"
    using \<open>c = 45 \<or> is_digit c\<close> by (auto simp: is_digit_def)
  ultimately show ?thesis
    using scan_int_show_int [OF assms, of i] by (simp add: scan_scalar_def c)
qed

subsection \<open>Quoting\<close>

text \<open>
  The compact text of an object whose members are strings and integers, over any way to
  quote a string: what the request payload should be.
\<close>

fun render_value :: "(rstring \<Rightarrow> rstring) \<Rightarrow> jvalue \<Rightarrow> rstring" where
  "render_value quote (JStr s) = quote s"
| "render_value quote (JInt i) = show_int i"
| "render_value quote _ = []"

definition render_member :: "(rstring \<Rightarrow> rstring) \<Rightarrow> rstring \<times> jvalue \<Rightarrow> rstring" where
  "render_member quote m = quote (fst m) @ 58 # render_value quote (snd m)"

fun render_members :: "(rstring \<Rightarrow> rstring) \<Rightarrow> (rstring \<times> jvalue) list \<Rightarrow> rstring" where
  "render_members quote [] = []"
| "render_members quote (m # ms) =
     render_member quote m @ (if ms = [] then [] else 44 # render_members quote ms)"

fun string_or_int :: "jvalue \<Rightarrow> bool" where
  "string_or_int (JStr _) = True"
| "string_or_int (JInt _) = True"
| "string_or_int _ = False"

text \<open>
  What the SDK needs of \<^verbatim>\<open>Value::from(s).to_string()\<close>: the text is a string literal that
  reads back as \<^verbatim>\<open>s\<close>, whatever follows it.
\<close>

locale json_quoting =
  fixes quote :: "rstring \<Rightarrow> rstring"
  assumes reads_back: "scan_string (quote s @ rest) = Some (s, rest)"
begin

lemma quote_opens: "\<exists>cs. quote s @ rest = 34 # cs"
  using reads_back [of s rest] by (auto simp: scan_string_def split: list.splits if_splits)

lemma skip_space_quote [simp]: "skip_space (quote s @ rest) = quote s @ rest"
  using quote_opens [of s rest] by (auto simp: is_json_space_def)

lemma scan_scalar_quote: "scan_scalar (skip_space (quote s @ rest)) = Some (JStr s, rest)"
proof -
  obtain cs where "quote s @ rest = 34 # cs" using quote_opens by blast
  then show ?thesis using reads_back [of s rest] by (simp add: scan_scalar_def is_json_space_def)
qed

lemma quote_inject: "quote s = quote t \<Longrightarrow> s = t"
  by (metis reads_back option.inject prod.inject)

lemma scan_scalar_render:
  assumes "string_or_int v" and "c = 44 \<or> c = 125"
  shows "scan_scalar (skip_space (render_value quote v @ c # rest)) = Some (v, c # rest)"
  using assms scan_scalar_quote scan_scalar_show_int [of "c # rest"]
  by (cases v) (auto simp: is_digit_def)

lemma scan_members_render:
  assumes "ms \<noteq> []" and "\<forall>m\<in>set ms. string_or_int (snd m)" and "length ms \<le> fuel"
  shows "scan_members fuel (render_members quote ms @ 125 # rest) = Some (ms, rest)"
  using assms
proof (induction ms arbitrary: fuel)
  case Nil
  then show ?case by simp
next
  case (Cons m ms)
  obtain name v where m: "m = (name, v)" by (cases m)
  obtain f where fuel: "fuel = Suc f" using Cons.prems(3) by (cases fuel) auto
  show ?case
  proof (cases "ms = []")
    case True
    with Cons.prems m show ?thesis
      by (simp add: fuel render_member_def reads_back scan_scalar_render is_json_space_def)
  next
    case False
    with Cons have "scan_members f (render_members quote ms @ 125 # rest) = Some (ms, rest)"
      by (simp add: fuel)
    with False Cons.prems m show ?thesis
      by (simp add: fuel render_member_def reads_back scan_scalar_render is_json_space_def)
  qed
qed

lemma length_render_members: "length ms \<le> length (render_members quote ms)"
proof (induction ms)
  case (Cons m ms)
  then show ?case by (cases "ms = []") (auto simp: render_member_def)
qed simp

lemma read_object_render:
  assumes "ms \<noteq> []" and "\<forall>m\<in>set ms. string_or_int (snd m)"
  shows "read_object (123 # render_members quote ms @ [125]) = Some ms"
proof -
  obtain name v ns where ms: "ms = (name, v) # ns" using assms(1) by (cases ms) auto
  obtain cs where cs: "render_members quote ms @ [125] = 34 # cs"
    using quote_opens [of name] by (simp add: ms render_member_def) blast
  have "length ms \<le> Suc (Suc (length (render_members quote ms)))"
    using length_render_members [of ms] by simp
  from scan_members_render [OF assms this, of "[]"]
  have "scan_members (length (123 # render_members quote ms @ [125])) (34 # cs) = Some (ms, [])"
    by (simp add: cs [symmetric])
  then show ?thesis
    unfolding read_object_def cs by (simp add: is_json_space_def)
qed

end

subsection \<open>A conforming quoting function\<close>

text \<open>
  The escaping RFC 8259 asks for and no more: the quote, the backslash and the control
  characters. It shows that the law of \<open>json_quoting\<close> can be met.
\<close>

definition hex_char :: "nat \<Rightarrow> rchar" where
  "hex_char d = (if d < 10 then 48 + d else 87 + d)"

definition escape_char :: "rchar \<Rightarrow> rstring" where
  "escape_char c =
     (if c = 34 then [92, 34]
      else if c = 92 then [92, 92]
      else if c = 8 then [92, 98]
      else if c = 9 then [92, 116]
      else if c = 10 then [92, 110]
      else if c = 12 then [92, 102]
      else if c = 13 then [92, 114]
      else if c < 32 then [92, 117, 48, 48, hex_char (c div 16), hex_char (c mod 16)]
      else [c])"

definition rfc_quote :: "rstring \<Rightarrow> rstring" where
  "rfc_quote s = 34 # concat (map escape_char s) @ [34]"

lemma hex_digit_hex_char: "d < 16 \<Longrightarrow> hex_digit (hex_char d) = Some d"
  by (auto simp: hex_digit_def hex_char_def)

lemma unicode_escape_control:
  assumes "c < 32"
  shows "unicode_escape (48 # 48 # hex_char (c div 16) # hex_char (c mod 16) # rest) = Some (c, rest)"
proof -
  have "hex_digit (hex_char (c div 16)) = Some (c div 16)" "hex_digit (hex_char (c mod 16)) = Some (c mod 16)"
    using assms by (auto intro!: hex_digit_hex_char)
  moreover have "hex_digit 48 = Some 0" by (simp add: hex_digit_def)
  ultimately have "hex4 (48 # 48 # hex_char (c div 16) # hex_char (c mod 16) # rest) = Some (c, rest)"
    by (simp add: hex4_def)
  with assms show ?thesis by (simp add: unicode_escape_def)
qed

lemma scan_chars_escape_char:
  "scan_chars (escape_char c @ s) = map_option (\<lambda>(t, r). (c # t, r)) (scan_chars s)"
  by (auto simp: escape_char_def unescape_def unicode_escape_control)

lemma scan_chars_escaped:
  "scan_chars (concat (map escape_char s) @ 34 # rest) = Some (s, rest)"
  by (induction s) (simp_all add: scan_chars_escape_char)

interpretation rfc: json_quoting rfc_quote
  by unfold_locales (simp add: rfc_quote_def scan_string_def scan_chars_escaped)

end
