(* ===== verification/Wire.thy ===== *)
theory Wire
  imports Request Response Json_Reader
begin

text \<open>
  \<^verbatim>\<open>src/rust/src/internal/wire.rs\<close>: rendering the request payload and decoding the response.
  \<^verbatim>\<open>serde_json\<close> is the parameter \<open>J\<close>, a record of the calls the file makes:
  \<^verbatim>\<open>Value::from(s).to_string()\<close>, \<^verbatim>\<open>from_str\<close>, and the accessors of a \<^verbatim>\<open>Value\<close> of the
  type \<open>'v\<close> (an object is represented by its \<^verbatim>\<open>get\<close>).
\<close>

record ('v, 'e) serde_json =
  quote :: "rstring \<Rightarrow> rstring"
  from_str :: "rstring \<Rightarrow> ('v, 'e) result"
  as_object :: "'v \<Rightarrow> (rstring \<Rightarrow> 'v option) option"
  as_bool :: "'v \<Rightarrow> bool option"
  as_i64 :: "'v \<Rightarrow> int option"
  as_str :: "'v \<Rightarrow> rstring option"

subsection \<open>Rendering\<close>

text \<open>The two mutable arguments of the helpers: the payload so far and the \<^verbatim>\<open>first\<close> flag.\<close>

type_synonym writer = "rstring \<times> bool"

fun push_separator :: "writer \<Rightarrow> writer" where
  "push_separator (payload, first) = (if first then (payload, False) else (payload @ [44], first))"

definition push_str :: "rstring \<Rightarrow> writer \<Rightarrow> writer" where
  "push_str s w = (fst w @ s, snd w)"

definition push_string :: "('v, 'e) serde_json \<Rightarrow> rstring \<Rightarrow> rstring \<Rightarrow> writer \<Rightarrow> writer" where
  "push_string J name v w =
     push_str (quote J v) (push_str [58] (push_str (quote J name) (push_separator w)))"

definition push_optional_string ::
  "('v, 'e) serde_json \<Rightarrow> rstring \<Rightarrow> rstring option \<Rightarrow> writer \<Rightarrow> writer" where
  "push_optional_string J name v w = (case v of Some s \<Rightarrow> push_string J name s w | None \<Rightarrow> w)"

definition push_number :: "('v, 'e) serde_json \<Rightarrow> rstring \<Rightarrow> int \<Rightarrow> writer \<Rightarrow> writer" where
  "push_number J name v w =
     push_str (show_int v) (push_str [58] (push_str (quote J name) (push_separator w)))"

definition serialize_request ::
  "('v, 'e) serde_json \<Rightarrow> IncidentRequest \<Rightarrow> rstring option \<Rightarrow> rstring" where
  "serialize_request J request resolved_service_key =
     (let w0 = ([123], True);
          w1 = push_optional_string J (lit ''serviceKey'') resolved_service_key w0;
          w2 = push_string J (lit ''title'') (title request) w1;
          w3 = push_string J (lit ''source'') (source request) w2;
          w4 = push_number J (lit ''severity'') (uint (severity_value (severity request))) w3;
          w5 = push_number J (lit ''priority'') (uint (priority request)) w4;
          w6 = push_number J (lit ''srcTimestamp'') (src_timestamp request) w5;
          w7 = push_optional_string J (lit ''component'') (component request) w6;
          w8 = push_optional_string J (lit ''group'') (group request) w7;
          w9 = push_optional_string J (lit ''type'') (incident_type request) w8;
          w10 = push_optional_string J (lit ''detailsJSON'') (details request) w9
      in fst w10 @ [125])"

subsection \<open>Decoding\<close>

definition parse_response ::
  "('v, 'e) serde_json \<Rightarrow> int \<Rightarrow> rstring \<Rightarrow> (IncidentResponse, 'e IncidentError) result" where
  "parse_response J http_status body =
     (let successful = (200 \<le> http_status \<and> http_status < 300) in
      if is_blank body then Inr (response_new successful http_status None None)
      else
      tryr (case from_str J body of
              Inl cause \<Rightarrow>
                Inl (delivery_caused_by
                  (lit ''Oppex returned a non-JSON response (status '' @ show_int http_status @ lit '')'')
                  http_status False cause)
            | Inr parsed \<Rightarrow> Inr parsed) (\<lambda>parsed.
      case as_object J parsed of
        None \<Rightarrow>
          Inl (delivery
            (lit ''Oppex returned a non-object JSON response (status '' @ show_int http_status @ lit '')'')
            http_status False)
      | Some get \<Rightarrow>
          Inr (response_new
            (unwrap_or (Option.bind (get (lit ''success'')) (as_bool J)) successful)
            (unwrap_or
              (Option.bind (Option.bind (get (lit ''code'')) (as_i64 J)) i32_try_from) http_status)
            (Option.bind (get (lit ''message'')) (as_str J))
            (Option.bind (get (lit ''data'')) (as_str J)))))"

subsection \<open>The payload is the agreed object\<close>

text \<open>
  The members the API expects, in the agreed order; an absent optional field has no member.
\<close>

definition optional_member :: "string \<Rightarrow> rstring option \<Rightarrow> (rstring \<times> jvalue) list" where
  "optional_member name v = (case v of None \<Rightarrow> [] | Some s \<Rightarrow> [(lit name, JStr s)])"

definition wire_members :: "IncidentRequest \<Rightarrow> rstring option \<Rightarrow> (rstring \<times> jvalue) list" where
  "wire_members r key =
     optional_member ''serviceKey'' key @
     [(lit ''title'', JStr (rq_title r)),
      (lit ''source'', JStr (rq_source r)),
      (lit ''severity'', JInt (1 + int (discriminant (rq_severity r)))),
      (lit ''priority'', JInt (uint (rq_priority r))),
      (lit ''srcTimestamp'', JInt (rq_src_timestamp r))] @
     optional_member ''component'' (rq_component r) @
     optional_member ''group'' (rq_group r) @
     optional_member ''type'' (rq_incident_type r) @
     optional_member ''detailsJSON'' (rq_details r)"

text \<open>
  What the writer holds after some members: the opening brace, the members so far, and
  \<^verbatim>\<open>first\<close> exactly while there are none.
\<close>

definition written :: "('v, 'e) serde_json \<Rightarrow> (rstring \<times> jvalue) list \<Rightarrow> writer" where
  "written J ms = (123 # render_members (quote J) ms, ms = [])"

lemma render_members_snoc:
  "render_members q (ms @ [m]) = (if ms = [] then [] else render_members q ms @ [44]) @ render_member q m"
  by (induction ms) auto

lemma written_Nil: "([123], True) = written J []"
  by (simp add: written_def)

lemma push_string_written: "push_string J name v (written J ms) = written J (ms @ [(name, JStr v)])"
  by (simp add: push_string_def push_str_def written_def render_members_snoc render_member_def)

lemma push_number_written: "push_number J name v (written J ms) = written J (ms @ [(name, JInt v)])"
  by (simp add: push_number_def push_str_def written_def render_members_snoc render_member_def)

lemma push_optional_string_written:
  "push_optional_string J (lit name) v (written J ms) = written J (ms @ optional_member name v)"
  by (simp add: push_optional_string_def optional_member_def push_string_written split: option.split)

lemmas pushes_written = push_string_written push_number_written push_optional_string_written

lemma uint_severity_value: "uint (severity_value s) = 1 + int (discriminant s)"
  by (cases s) auto

lemma serialize_request_render:
  "serialize_request J r key = 123 # render_members (quote J) (wire_members r key) @ [125]"
  unfolding serialize_request_def Let_def written_Nil [of J] pushes_written
  by (simp add: written_def wire_members_def accessors uint_severity_value)

text \<open>
  C7. The incremental writer equals a reference renderer: pushing members one by one, with a
  flag that tells whether a comma is due and absent optional fields skipped on the way, gives
  the list of present members rendered at once, joined by commas, between braces. This holds
  of any \<^verbatim>\<open>serde_json\<close>.
\<close>

theorem writer_equals_reference_renderer:
  "serialize_request J r key = 123 # render_members (quote J) (wire_members r key) @ [125]"
  by (rule serialize_request_render)

lemma wire_members_nonempty: "wire_members r key \<noteq> []"
  by (simp add: wire_members_def)

lemma wire_members_string_or_int: "\<forall>m\<in>set (wire_members r key). string_or_int (snd m)"
  by (auto simp: wire_members_def optional_member_def split: option.splits)

lemma payload_members:
  assumes "json_quoting (quote J)"
  shows "read_object (serialize_request J r key) = Some (wire_members r key)"
  unfolding serialize_request_render
  by (rule json_quoting.read_object_render [OF assms wire_members_nonempty wire_members_string_or_int])

text \<open>
  C6. The hand-built payload is correctly encoded JSON: provided \<^verbatim>\<open>serde_json\<close> renders a
  string as a literal that reads back as that string, the payload reads as one object with
  exactly the agreed members in the agreed order, and an absent optional field is omitted.
\<close>

theorem payload_reads_back:
  assumes "json_quoting (quote J)"
  shows "read_object (serialize_request J r key) = Some (wire_members r key)"
  by (rule payload_members [OF assms])

text \<open>Looking a field up in the members.\<close>

lemma wire_member_lookup:
  "map_of (wire_members r key) (lit ''serviceKey'') = map_option JStr key"
  "map_of (wire_members r key) (lit ''title'') = Some (JStr (rq_title r))"
  "map_of (wire_members r key) (lit ''source'') = Some (JStr (rq_source r))"
  "map_of (wire_members r key) (lit ''severity'') = Some (JInt (1 + int (discriminant (rq_severity r))))"
  "map_of (wire_members r key) (lit ''priority'') = Some (JInt (uint (rq_priority r)))"
  "map_of (wire_members r key) (lit ''srcTimestamp'') = Some (JInt (rq_src_timestamp r))"
  "map_of (wire_members r key) (lit ''component'') = map_option JStr (rq_component r)"
  "map_of (wire_members r key) (lit ''group'') = map_option JStr (rq_group r)"
  "map_of (wire_members r key) (lit ''type'') = map_option JStr (rq_incident_type r)"
  "map_of (wire_members r key) (lit ''detailsJSON'') = map_option JStr (rq_details r)"
  by (simp_all add: wire_members_def optional_member_def literals split: option.split)

lemma wire_members_distinct: "distinct (map fst (wire_members r key))"
  by (simp add: wire_members_def optional_member_def literals split: option.split)

lemma map_option_JStr_inject [simp]: "map_option JStr x = map_option JStr y \<longleftrightarrow> x = y"
  by (cases x; cases y) auto

lemma wire_members_inject:
  assumes eq: "wire_members r key = wire_members r' key'"
  shows "key = key' \<and> r\<lparr>rq_service_key := None\<rparr> = r'\<lparr>rq_service_key := None\<rparr>"
proof -
  have "map_of (wire_members r key) name = map_of (wire_members r' key') name" for name
    using eq by simp
  note this [of "lit ''serviceKey''"] this [of "lit ''title''"] this [of "lit ''source''"]
    this [of "lit ''severity''"] this [of "lit ''priority''"] this [of "lit ''srcTimestamp''"]
    this [of "lit ''component''"] this [of "lit ''group''"] this [of "lit ''type''"]
    this [of "lit ''detailsJSON''"]
  then show ?thesis
    unfolding wire_member_lookup by (cases r; cases r') (simp add: word_uint_eq_iff)
qed

text \<open>
  Nothing is lost on the wire: two payloads are equal only if they carry the same
  resolved service key and the same request (a request's own service key is sent only
  through the resolved one).
\<close>

lemma payload_determines_request:
  assumes "json_quoting (quote J)"
    and "serialize_request J r key = serialize_request J r' key'"
  shows "key = key' \<and> r\<lparr>rq_service_key := None\<rparr> = r'\<lparr>rq_service_key := None\<rparr>"
proof -
  have "read_object (serialize_request J r key) = Some (wire_members r key)"
    and "read_object (serialize_request J r' key') = Some (wire_members r' key')"
    by (rule payload_members [OF assms(1)])+
  with assms(2) show ?thesis by (intro wire_members_inject) simp
qed

subsection \<open>The response decoder\<close>

definition non_json_message :: "int \<Rightarrow> rstring" where
  "non_json_message status =
     lit ''Oppex returned a non-JSON response (status '' @ show_int status @ lit '')''"

definition non_object_message :: "int \<Rightarrow> rstring" where
  "non_object_message status =
     lit ''Oppex returned a non-object JSON response (status '' @ show_int status @ lit '')''"

lemma parse_response_blank:
  "is_blank body \<Longrightarrow>
     parse_response J status body = Inr (response_new (200 \<le> status \<and> status < 300) status None None)"
  by (simp add: parse_response_def)

lemma parse_response_eq_Inl:
  "parse_response J status body = Inl e \<longleftrightarrow>
     \<not> is_blank body \<and>
     ((\<exists>cause. from_str J body = Inl cause \<and> e = Delivery (non_json_message status) status False (Some cause)) \<or>
      (\<exists>v. from_str J body = Inr v \<and> as_object J v = None \<and>
           e = Delivery (non_object_message status) status False None))"
  by (auto simp: parse_response_def Let_def accessors non_json_message_def non_object_message_def
      split: sum.splits option.splits)

text \<open>
  C34. A body that cannot be decoded is never echoed: every failure of \<^verbatim>\<open>parse_response\<close> is a
  non-retryable delivery error that carries the HTTP status and one of two messages computed
  from the status alone.
\<close>

theorem parse_failure_never_echoes_body:
  assumes "parse_response J status body = Inl e"
  shows "\<exists>message cause. e = Delivery message status False cause \<and>
           message \<in> {non_json_message status, non_object_message status}"
  using assms unfolding parse_response_eq_Inl by auto

text \<open>
  A decoded response always carries an \<^verbatim>\<open>i32\<close> code: an out-of-range or non-integer
  \<^verbatim>\<open>code\<close> of the body falls back to the HTTP status instead of wrapping.
\<close>

lemma response_code_in_range:
  assumes "parse_response J status body = Inr r"
    and "- (2 ^ 31) \<le> status" and "status < 2 ^ 31"
  shows "- (2 ^ 31) \<le> response_code r \<and> response_code r < 2 ^ 31 \<and>
         (is_blank body \<longrightarrow> response_code r = status)"
proof -
  have bound: "- (2 ^ 31) \<le> unwrap_or (Option.bind x (\<lambda>y. Option.bind (as_i64 J y) i32_try_from)) status \<and>
      unwrap_or (Option.bind x (\<lambda>y. Option.bind (as_i64 J y) i32_try_from)) status < 2 ^ 31" for x
    using assms(2,3) by (cases x; cases "as_i64 J (the x)") (auto simp: i32_try_from_def)
  from assms(1) show ?thesis
    using assms(2,3) bound
    by (auto simp: parse_response_def Let_def accessors tryr_eq_Inr split: if_splits sum.splits option.splits)
qed

subsection \<open>A concrete instance\<close>

text \<open>
  The parameter \<open>J\<close> instantiated by the reader and the quoting function of
  \<^verbatim>\<open>Json_Reader\<close>, for concrete runs.
\<close>

definition rfc_serde :: "(jvalue, unit) serde_json" where
  "rfc_serde =
     \<lparr>quote = rfc_quote,
      from_str = (\<lambda>s. case read_object s of Some ms \<Rightarrow> Inr (JObj ms) | None \<Rightarrow> Inl ()),
      as_object = (\<lambda>v. case v of JObj ms \<Rightarrow> Some (map_of (rev ms)) | _ \<Rightarrow> None),
      as_bool = (\<lambda>v. case v of JBool b \<Rightarrow> Some b | _ \<Rightarrow> None),
      as_i64 = (\<lambda>v. case v of JInt i \<Rightarrow> i64_try_from i | _ \<Rightarrow> None),
      as_str = (\<lambda>v. case v of JStr s \<Rightarrow> Some s | _ \<Rightarrow> None)\<rparr>"

text \<open>
  What the crate's tests rely on of \<^verbatim>\<open>serde_json\<close>, beyond the quoting that reads back: the exact
  escapes it writes, that it reads the objects of \<^verbatim>\<open>Json_Reader\<close> with distinct names and numbers
  that fit into an \<^verbatim>\<open>i64\<close> as they are (a zero may be written as the float \<^verbatim>\<open>-0\<close>), and that a text
  whose first character starts no JSON value is an error.
\<close>

fun ordinary :: "jvalue \<Rightarrow> bool" where
  "ordinary (JInt i) = (i \<noteq> 0 \<and> i64_try_from i = Some i)"
| "ordinary (JObj _) = False"
| "ordinary _ = True"

fun represents :: "('v, 'e) serde_json \<Rightarrow> jvalue \<Rightarrow> 'v \<Rightarrow> bool" where
  "represents J (JStr s) v = (as_str J v = Some s)"
| "represents J (JInt i) v = (as_i64 J v = i64_try_from i)"
| "represents J (JBool b) v = (as_bool J v = Some b)"
| "represents J _ v = True"

locale json_library =
  fixes J :: "('v, 'e) serde_json"
  assumes quotes: "quote J = rfc_quote"
    and reads: "read_object s = Some ms \<Longrightarrow> distinct (map fst ms) \<Longrightarrow> list_all (\<lambda>m. ordinary (snd m)) ms \<Longrightarrow>
      \<exists>v get. from_str J s = Inr v \<and> as_object J v = Some get \<and>
        (\<forall>name. rel_option (represents J) (map_of ms name) (get name))"
    and rejects: "c \<notin> set (lit ''{[-0123456789tfn'' @ [34]) \<Longrightarrow> \<not> is_json_space c \<Longrightarrow> \<exists>e. from_str J (c # s) = Inl e"
begin

lemma quoting: "json_quoting (quote J)"
  by (simp add: quotes rfc.json_quoting_axioms)

lemma serializes: "serialize_request J r key = serialize_request rfc_serde r key"
  by (simp add: serialize_request_render quotes rfc_serde_def)

text \<open>An object by its members.\<close>

lemma members:
  assumes "read_object s = Some ms" and "distinct (map fst ms)" and "list_all (\<lambda>m. ordinary (snd m)) ms"
  shows "\<exists>v get. from_str J s = Inr v \<and> as_object J v = Some get \<and>
    (\<forall>name x. map_of ms name = Some (JStr x) \<longrightarrow> Option.bind (get name) (as_str J) = Some x) \<and>
    (\<forall>name i. map_of ms name = Some (JInt i) \<longrightarrow> Option.bind (get name) (as_i64 J) = i64_try_from i) \<and>
    (\<forall>name b. map_of ms name = Some (JBool b) \<longrightarrow> Option.bind (get name) (as_bool J) = Some b) \<and>
    (\<forall>name. map_of ms name = None \<longrightarrow> get name = None)"
proof -
  obtain v get where "from_str J s = Inr v" "as_object J v = Some get"
    and rel: "\<And>name. rel_option (represents J) (map_of ms name) (get name)"
    using reads [OF assms] by blast
  moreover have "\<exists>w. get name = Some w \<and> represents J x w" if "map_of ms name = Some x" for name x
    using rel [of name] that by (auto simp: option_rel_Some1)
  moreover have "get name = None" if "map_of ms name = None" for name
    using rel [of name] that by simp
  ultimately show ?thesis by (intro exI [of _ v] exI [of _ get]) fastforce
qed

text \<open>The API's envelope.\<close>

lemma envelope:
  assumes "read_object body = Some [(lit ''success'', JBool b), (lit ''code'', JInt code), (lit ''message'', JStr m),
      (lit ''data'', JStr d)]" and "\<not> is_blank body" and "ordinary (JInt code)"
  shows "parse_response J status body = Inr (response_new b (unwrap_or (i32_try_from code) status) (Some m) (Some d))"
proof -
  let ?ms = "[(lit ''success'', JBool b), (lit ''code'', JInt code), (lit ''message'', JStr m), (lit ''data'', JStr d)]"
  have "distinct (map fst ?ms)" by (simp add: literals)
  moreover have "list_all (\<lambda>m. ordinary (snd m)) ?ms" using assms(3) by simp
  moreover have "map_of ?ms (lit ''success'') = Some (JBool b)" "map_of ?ms (lit ''code'') = Some (JInt code)"
    "map_of ?ms (lit ''message'') = Some (JStr m)" "map_of ?ms (lit ''data'') = Some (JStr d)"
    by (simp_all add: literals)
  ultimately obtain v get where "from_str J body = Inr v" "as_object J v = Some get"
    "Option.bind (get (lit ''success'')) (as_bool J) = Some b"
    "Option.bind (get (lit ''code'')) (as_i64 J) = i64_try_from code"
    "Option.bind (get (lit ''message'')) (as_str J) = Some m" "Option.bind (get (lit ''data'')) (as_str J) = Some d"
    using members [OF assms(1)] by metis
  then show ?thesis using assms(2,3) by (simp add: parse_response_def)
qed

end

lemma wire_members_ordinary:
  assumes "rq_priority r \<noteq> 0" and "rq_src_timestamp r \<noteq> 0" and "i64_try_from (rq_src_timestamp r) = Some (rq_src_timestamp r)"
  shows "list_all (\<lambda>m. ordinary (snd m)) (wire_members r key)"
proof -
  have "i64_try_from (uint (rq_priority r)) = Some (uint (rq_priority r))"
    using uint_lt2p [of "rq_priority r"] order_trans [OF _ uint_ge_0 [of "rq_priority r"], of "- (2 ^ 63)"]
    by (simp add: i64_try_from_def)
  moreover have "i64_try_from (1 + int (discriminant s)) = Some (1 + int (discriminant s))" for s
    by (cases s) (simp_all add: i64_try_from_def)
  ultimately show ?thesis
    using assms
    by (auto simp: wire_members_def optional_member_def uint_0_iff split: option.split)
qed

lemma distinct_map_of_rev: "distinct (map fst ms) \<Longrightarrow> map_of (rev ms) = map_of ms"
  by (rule map_of_eqI) (auto simp: map_of_eq_Some_iff [of ms] map_of_eq_Some_iff [of "rev ms"] rev_map [symmetric])

interpretation rfc_library: json_library rfc_serde
proof
  show "quote rfc_serde = rfc_quote" by (simp add: rfc_serde_def)
next
  fix s ms
  assume "read_object s = Some ms" and distinct: "distinct (map fst ms)"
  moreover have "represents rfc_serde x x" for x by (cases x) (simp_all add: rfc_serde_def)
  then have "rel_option (represents rfc_serde) y y" for y by (cases y) auto
  ultimately show "\<exists>v get. from_str rfc_serde s = Inr v \<and> as_object rfc_serde v = Some get \<and>
      (\<forall>name. rel_option (represents rfc_serde) (map_of ms name) (get name))"
    by (simp add: rfc_serde_def distinct_map_of_rev)
next
  fix c s
  assume "c \<notin> set (lit ''{[-0123456789tfn'' @ [34])" "\<not> is_json_space c"
  then show "\<exists>e. from_str rfc_serde (c # s) = Inl e"
    by (simp add: rfc_serde_def read_object_def skip_space_def literals)
qed

lemma rfc_serde_quoting: "json_quoting (quote rfc_serde)"
  by (simp add: rfc_serde_def rfc.json_quoting_axioms)

text \<open>Rules that compute a payload.\<close>

lemmas payload_eval = serialize_request_render wire_members_def optional_member_def rfc_serde_def rfc_quote_def
  escape_char_def render_member_def show_int_def show_nat_numerals

theorem payload_reads_back_witness:
  "read_object (serialize_request rfc_serde sample_request (Some (lit ''key''))) =
     Some (wire_members sample_request (Some (lit ''key'')))"
  by (rule payload_reads_back [OF rfc_serde_quoting])

lemma rfc_parse_html:
  "parse_response rfc_serde 502 (lit ''<html>'') = Inl (Delivery (non_json_message 502) 502 False (Some ()))"
  by (simp add: parse_response_eq_Inl rfc_serde_def literals is_whitespace_def read_object_def
      is_json_space_def)

theorem parse_failure_never_echoes_body_witness:
  "\<exists>message cause. Delivery (non_json_message 502) 502 False (Some ()) = Delivery message 502 False cause \<and>
     message \<in> {non_json_message 502, non_object_message 502}"
  by (rule parse_failure_never_echoes_body [OF rfc_parse_html])

definition sample_envelope :: rstring where
  "sample_envelope =
     123 # render_members rfc_quote
       [(lit ''code'', JInt 99999999999), (lit ''data'', JStr (lit ''INC-1''))] @ [125]"

lemma rfc_parse_envelope:
  "parse_response rfc_serde 200 sample_envelope = Inr (response_new True 200 None (Some (lit ''INC-1'')))"
proof -
  have "read_object sample_envelope =
      Some [(lit ''code'', JInt 99999999999), (lit ''data'', JStr (lit ''INC-1''))]"
    unfolding sample_envelope_def by (rule rfc.read_object_render) simp_all
  moreover have "\<not> is_blank sample_envelope"
    by (simp add: sample_envelope_def is_whitespace_def)
  ultimately show ?thesis
    by (simp add: parse_response_def rfc_serde_def literals i64_try_from_def i32_try_from_def)
qed

end
