(* ===== verification/Interrupt.thy ===== *)
theory Interrupt
  imports Prelude
begin

text \<open>
  \<^verbatim>\<open>src/rust/src/internal/interrupt.rs\<close>: the one-way stop signal. The mutex-protected flag is
  a record; a wait sees it once when it starts and then each time the condition variable
  returns control, at times the scheduler chooses. Those moments are the argument
  \<open>wakeups\<close> of \<open>wait\<close>: pairs of the time since the wait began and the flag read then.
\<close>

record Interrupt =
  signalled :: bool

definition interrupt_new :: Interrupt where
  "interrupt_new = \<lparr>signalled = False\<rparr>"

definition signal :: "Interrupt \<Rightarrow> Interrupt" where
  "signal i = i\<lparr>signalled := True\<rparr>"

type_synonym wakeup = "duration \<times> bool"

text \<open>
  \<^verbatim>\<open>Condvar::wait_timeout_while(guard, duration, |s| !*s)\<close>: at each moment the thread holds
  the lock it leaves if the flag is set, or if more than \<open>duration\<close> has elapsed
  (\<^verbatim>\<open>checked_sub\<close> fails), and otherwise waits again. \<open>None\<close> is a thread still waiting after
  the given moments; the value is the flag it leaves with and when.
\<close>

fun wait_timeout_while :: "duration \<Rightarrow> wakeup list \<Rightarrow> (bool \<times> duration) option" where
  "wait_timeout_while d [] = None"
| "wait_timeout_while d ((at, flag) # ws) =
     (if flag then Some (True, at)
      else if d < at then Some (False, at)
      else wait_timeout_while d ws)"

definition wait :: "Interrupt \<Rightarrow> duration \<Rightarrow> wakeup list \<Rightarrow> (bool \<times> duration) option" where
  "wait i d wakeups = wait_timeout_while d ((0, signalled i) # wakeups)"

lemma signal_idempotent [simp]: "signal (signal i) = signal i"
  by (simp add: signal_def)

text \<open>A signalled interrupt ends every wait at once: no wake-up is consumed.\<close>

lemma wait_signalled: "signalled i \<Longrightarrow> wait i d ws = Some (True, 0)"
  by (simp add: wait_def)

lemma wait_timeout_while_returns:
  assumes "\<exists>(at, flag)\<in>set ws. flag \<or> d < at"
  shows "\<exists>r. wait_timeout_while d ws = Some r"
  using assms by (induction d ws rule: wait_timeout_while.induct) auto

lemma wait_timeout_while_Some:
  assumes "wait_timeout_while d ws = Some (flag, at)"
  shows "\<exists>pre post. ws = pre @ (at, flag) # post \<and> (\<forall>(t, f)\<in>set pre. \<not> f \<and> t \<le> d) \<and> (flag \<or> d < at)"
  using assms
proof (induction ws)
  case (Cons w ws)
  show ?case
  proof (cases "snd w \<or> d < fst w")
    case True
    with Cons.prems have "w = (at, flag)" and "flag \<or> d < at" by (cases w; auto split: if_splits)+
    then show ?thesis by (intro exI [of _ "[]"] exI [of _ ws]) simp
  next
    case False
    with Cons.prems have "wait_timeout_while d ws = Some (flag, at)" by (cases w) auto
    with Cons.IH obtain pre post where "ws = pre @ (at, flag) # post"
      and "\<forall>(t, f)\<in>set pre. \<not> f \<and> t \<le> d" and "flag \<or> d < at" by blast
    with False show ?thesis by (intro exI [of _ "w # pre"] exI [of _ post]) (cases w, auto)
  qed
qed simp

text \<open>
  C30. \<^verbatim>\<open>wait\<close> keeps its promise under any schedule of wake-ups, spurious ones included: it
  returns \<^verbatim>\<open>true\<close> only at a moment the flag was set, \<^verbatim>\<open>false\<close> only after the full duration
  and never having seen the flag set, and it does return once the flag is seen or the
  duration has passed.
\<close>

theorem wait_correct:
  "(wait i d ws = Some (True, at) \<longrightarrow> (at, True) \<in> set ((0, signalled i) # ws)) \<and>
   (wait i d ws = Some (False, at) \<longrightarrow>
      d < at \<and> \<not> signalled i \<and> (\<forall>(t, f)\<in>set (takeWhile (\<lambda>(t, f). t \<le> d) ws). \<not> f)) \<and>
   ((\<exists>(t, f)\<in>set ws. f \<or> d < t) \<longrightarrow> wait i d ws \<noteq> None)"
proof (intro conjI [OF impI conjI [OF impI impI]])
  assume "wait i d ws = Some (True, at)"
  then show "(at, True) \<in> set ((0, signalled i) # ws)"
    unfolding wait_def by (auto dest!: wait_timeout_while_Some split: if_splits)
next
  assume "wait i d ws = Some (False, at)"
  then have fl: "\<not> signalled i" and w: "wait_timeout_while d ws = Some (False, at)"
    by (auto simp: wait_def split: if_splits)
  obtain pre post where ws: "ws = pre @ (at, False) # post"
    and pre: "\<forall>(t, f)\<in>set pre. \<not> f \<and> t \<le> d" and at: "d < at"
    using wait_timeout_while_Some [OF w] by auto
  have "takeWhile (\<lambda>(t, f). t \<le> d) (pre @ (at, False) # post) =
      pre @ takeWhile (\<lambda>(t, f). t \<le> d) ((at, False) # post)"
    by (rule takeWhile_append2) (use pre in auto)
  then have "takeWhile (\<lambda>(t, f). t \<le> d) ws = pre" using at by (simp add: ws)
  then show "d < at \<and> \<not> signalled i \<and> (\<forall>(t, f)\<in>set (takeWhile (\<lambda>(t, f). t \<le> d) ws). \<not> f)"
    using pre at fl by auto
next
  assume "\<exists>(t, f)\<in>set ws. f \<or> d < t"
  then show "wait i d ws \<noteq> None"
    using wait_timeout_while_returns [of ws d] by (auto simp: wait_def)
qed

theorem wait_correct_witness:
  "wait interrupt_new 5 [(2, False), (4, True)] = Some (True, 4) \<and> (4, True) \<in> set [(0, False), (2, False), (4, True)] \<and>
   wait interrupt_new 5 [(2, False), (6, False)] = Some (False, 6) \<and> (5::nat) < 6"
proof -
  have t: "wait interrupt_new 5 [(2, False), (4, True)] = Some (True, 4)"
    and f: "wait interrupt_new 5 [(2, False), (6, False)] = Some (False, 6)"
    by (simp_all add: wait_def interrupt_new_def)
  show ?thesis
    using t f wait_correct [of interrupt_new 5 "[(2, False), (4, True)]" 4]
      wait_correct [of interrupt_new 5 "[(2, False), (6, False)]" 6]
    by (simp add: interrupt_new_def)
qed

end
