(* ===== verification/Retry.thy ===== *)
theory Retry
  imports Incident_Error Interrupt
begin

text \<open>
  \<^verbatim>\<open>src/rust/src/internal/retry.rs\<close>: the retry loop. The operation and the interruptible wait
  are state-passing functions over the state \<open>'w\<close> of everything outside the loop (the
  network, the clock, the interrupt flag that other threads may set).
\<close>

definition DEFAULT_RETRY_DELAYS :: "duration list" where
  "DEFAULT_RETRY_DELAYS =
     [from_millis 500, from_millis 1000, from_millis 2000, from_millis 4000, from_millis 8000]"

definition is_retryable_status :: "int \<Rightarrow> bool" where
  "is_retryable_status status \<longleftrightarrow>
     status = 429 \<or> status = 500 \<or> status = 502 \<or> status = 503 \<or> status = 504"

fun with_attempt_count :: "'e IncidentError \<Rightarrow> nat \<Rightarrow> 'e IncidentError" where
  "with_attempt_count (Delivery message status retryable cause) attempts =
     (if status = NO_STATUS_CODE \<and> 1 < attempts
      then Delivery (message @ lit '' (after '' @ show_nat attempts @ lit '' attempts)'') status retryable cause
      else Delivery message status retryable cause)"
| "with_attempt_count other attempts = other"

definition interrupted_error :: "'e IncidentError" where
  "interrupted_error =
     delivery (lit ''incident delivery was interrupted during retry'') NO_STATUS_CODE False"

type_synonym ('w, 'a, 'e) operation = "'w \<Rightarrow> ('a, 'e IncidentError) result \<times> 'w"
type_synonym 'w waiting = "duration \<Rightarrow> 'w \<Rightarrow> bool \<times> 'w"

function retry_loop ::
  "duration list \<Rightarrow> 'w waiting \<Rightarrow> ('w, 'a, 'e) operation \<Rightarrow> nat \<Rightarrow> ('w, 'a, 'e) operation" where
  "retry_loop delays wait_for operation attempt w =
     (case operation w of
        (Inr v, w1) \<Rightarrow> (Inr v, w1)
      | (Inl failure, w1) \<Rightarrow>
          if \<not> is_retryable failure \<or> length delays \<le> attempt
          then (Inl (with_attempt_count failure (attempt + 1)), w1)
          else (case wait_for (delays ! attempt) w1 of
                  (interrupted, w2) \<Rightarrow>
                    if interrupted then (Inl interrupted_error, w2)
                    else retry_loop delays wait_for operation (attempt + 1) w2))"
  by pat_completeness auto
termination
  by (relation "measure (\<lambda>(delays, wait_for, operation, attempt, w). length delays - attempt)") auto

declare retry_loop.simps [simp del]

definition execute_with_retry ::
  "duration list \<Rightarrow> 'w waiting \<Rightarrow> ('w, 'a, 'e) operation \<Rightarrow> ('w, 'a, 'e) operation" where
  "execute_with_retry delays wait_for operation w = retry_loop delays wait_for operation 0 w"

lemma retry_loop_Ok: "operation w = (Inr v, w1) \<Longrightarrow> retry_loop ds wt operation k w = (Inr v, w1)"
  by (simp add: retry_loop.simps)

lemma retry_loop_final:
  "operation w = (Inl f, w1) \<Longrightarrow> \<not> is_retryable f \<or> length ds \<le> k \<Longrightarrow>
     retry_loop ds wt operation k w = (Inl (with_attempt_count f (k + 1)), w1)"
  by (subst retry_loop.simps) auto

lemma retry_loop_interrupted:
  "operation w = (Inl f, w1) \<Longrightarrow> is_retryable f \<Longrightarrow> k < length ds \<Longrightarrow> wt (ds ! k) w1 = (True, w2) \<Longrightarrow>
     retry_loop ds wt operation k w = (Inl interrupted_error, w2)"
  by (subst retry_loop.simps) simp

lemma retry_loop_again:
  "operation w = (Inl f, w1) \<Longrightarrow> is_retryable f \<Longrightarrow> k < length ds \<Longrightarrow> wt (ds ! k) w1 = (False, w2) \<Longrightarrow>
     retry_loop ds wt operation k w = retry_loop ds wt operation (Suc k) w2"
  by (subst retry_loop.simps) simp

text \<open>Induction along a run of the loop: one case per way an iteration can end.\<close>

lemma retry_induct [case_names Ok Final Interrupted Again]:
  fixes P :: "nat \<Rightarrow> 'w \<Rightarrow> bool" and operation :: "('w, 'a, 'e) operation"
  assumes Ok: "\<And>k w v w1. operation w = (Inr v, w1) \<Longrightarrow> P k w"
    and Final: "\<And>k w f w1. operation w = (Inl f, w1) \<Longrightarrow> \<not> is_retryable f \<or> length ds \<le> k \<Longrightarrow> P k w"
    and Interrupted: "\<And>k w f w1 w2. operation w = (Inl f, w1) \<Longrightarrow> is_retryable f \<Longrightarrow> k < length ds \<Longrightarrow>
      wt (ds ! k) w1 = (True, w2) \<Longrightarrow> P k w"
    and Again: "\<And>k w f w1 w2. operation w = (Inl f, w1) \<Longrightarrow> is_retryable f \<Longrightarrow> k < length ds \<Longrightarrow>
      wt (ds ! k) w1 = (False, w2) \<Longrightarrow> P (Suc k) w2 \<Longrightarrow> P k w"
  shows "P k w"
proof (induction "length ds - k" arbitrary: k w rule: less_induct)
  case (less k w)
  obtain res w1 where op: "operation w = (res, w1)" by fastforce
  show ?case
  proof (cases res)
    case (Inr v)
    with op Ok show ?thesis by simp
  next
    case (Inl f)
    obtain b w2 where w2: "wt (ds ! k) w1 = (b, w2)" by fastforce
    show ?thesis
    proof (cases "is_retryable f \<and> k < length ds")
      case False
      with op Inl Final show ?thesis by auto
    next
      case True
      then have "length ds - Suc k < length ds - k" by arith
      then have "P (Suc k) w2" by (rule less)
      with True op Inl w2 Again Interrupted show ?thesis by (cases b) auto
    qed
  qed
qed

text \<open>A run that succeeds ends with an attempt that did.\<close>

lemma retry_loop_success_attempt:
  "retry_loop ds wt operation k w = (Inr v, w') \<Longrightarrow> \<exists>w0. operation w0 = (Inr v, w')"
proof (induction k w rule: retry_induct [where operation = operation and ds = ds and wt = wt])
  case (Ok k w u w1)
  then show ?case by (auto simp: retry_loop_Ok)
qed (auto simp: retry_loop_final retry_loop_interrupted retry_loop_again)

subsection \<open>What a run does, attempt by attempt\<close>

text \<open>
  The observable events of a run, and the operation and the wait instrumented to record
  them. The instrumentation changes neither results nor states.
\<close>

datatype ('a, 'e) event = Attempted "('a, 'e IncidentError) result" | Waited duration bool

definition log_operation ::
  "('w, 'a, 'e) operation \<Rightarrow> ('w \<times> ('a, 'e) event list, 'a, 'e) operation" where
  "log_operation operation wl =
     (case operation (fst wl) of (r, w') \<Rightarrow> (r, (w', snd wl @ [Attempted r])))"

definition log_wait :: "'w waiting \<Rightarrow> ('w \<times> ('a, 'e) event list) waiting" where
  "log_wait wait_for d wl = (case wait_for d (fst wl) of (b, w') \<Rightarrow> (b, (w', snd wl @ [Waited d b])))"

lemma log_operation_apply:
  "operation w = (r, w') \<Longrightarrow> log_operation operation (w, l) = (r, (w', l @ [Attempted r]))"
  by (simp add: log_operation_def)

lemma log_wait_apply: "wt d w = (b, w') \<Longrightarrow> log_wait wt d (w, l) = (b, (w', l @ [Waited d b]))"
  by (simp add: log_wait_def)

lemmas logged = log_operation_apply log_wait_apply

lemma retry_loop_logged:
  "retry_loop ds wt operation k w = (r, w') \<longleftrightarrow>
     (\<exists>l'. retry_loop ds (log_wait wt) (log_operation operation) k (w, l) = (r, (w', l')))"
proof (induction k w arbitrary: l rule: retry_induct [where operation = operation and ds = ds and wt = wt])
  case (Ok k w v w1)
  then show ?case by (simp add: retry_loop_Ok logged)
next
  case (Final k w f w1)
  then show ?case by (simp add: retry_loop_final logged)
next
  case (Interrupted k w f w1 w2)
  then show ?case by (simp add: retry_loop_interrupted logged)
next
  case (Again k w f w1 w2)
  have "retry_loop ds (log_wait wt) (log_operation operation) k (w, l) =
      retry_loop ds (log_wait wt) (log_operation operation) (Suc k)
        (w2, (l @ [Attempted (Inl f)]) @ [Waited (ds ! k) False])"
    using Again.hyps by (intro retry_loop_again) (assumption | rule logged)+
  with Again.IH Again.hyps show ?case by (simp add: retry_loop_again)
qed

text \<open>The part of a history in which every attempt failed and was waited out.\<close>

fun backoff :: "'e IncidentError list \<Rightarrow> duration list \<Rightarrow> ('a, 'e) event list" where
  "backoff (f # fs) (d # ds) = Attempted (Inl f) # Waited d False # backoff fs ds"
| "backoff _ _ = []"

text \<open>
  The histories the documentation allows, from retry number \<open>k\<close> on: retryable failures,
  each followed by its delay, and then a success, a final failure or an interruption.
\<close>

definition retry_history ::
  "duration list \<Rightarrow> nat \<Rightarrow> ('a, 'e) event list \<Rightarrow> ('a, 'e IncidentError) result \<Rightarrow> bool" where
  "retry_history ds k l r \<longleftrightarrow>
     (\<exists>fs. k + length fs \<le> length ds \<and> (\<forall>f\<in>set fs. is_retryable f) \<and>
        ((\<exists>v. r = Inr v \<and> l = backoff fs (drop k ds) @ [Attempted (Inr v)]) \<or>
         (\<exists>f. (\<not> is_retryable f \<or> k + length fs = length ds) \<and>
              r = Inl (with_attempt_count f (k + length fs + 1)) \<and>
              l = backoff fs (drop k ds) @ [Attempted (Inl f)]) \<or>
         (\<exists>f. is_retryable f \<and> k + length fs < length ds \<and> r = Inl interrupted_error \<and>
              l = backoff fs (drop k ds) @ [Attempted (Inl f), Waited (ds ! (k + length fs)) True])))"

lemma retry_history_again:
  assumes "retry_history ds (Suc k) l r" and "is_retryable f" and "k < length ds"
  shows "retry_history ds k (Attempted (Inl f) # Waited (ds ! k) False # l) r"
proof -
  have drop: "drop k ds = ds ! k # drop (Suc k) ds" using assms(3) by (simp add: Cons_nth_drop_Suc)
  obtain fs where "Suc k + length fs \<le> length ds" "\<forall>f\<in>set fs. is_retryable f"
    and "(\<exists>v. r = Inr v \<and> l = backoff fs (drop (Suc k) ds) @ [Attempted (Inr v)]) \<or>
         (\<exists>f. (\<not> is_retryable f \<or> Suc k + length fs = length ds) \<and>
              r = Inl (with_attempt_count f (Suc k + length fs + 1)) \<and>
              l = backoff fs (drop (Suc k) ds) @ [Attempted (Inl f)]) \<or>
         (\<exists>f. is_retryable f \<and> Suc k + length fs < length ds \<and> r = Inl interrupted_error \<and>
              l = backoff fs (drop (Suc k) ds) @ [Attempted (Inl f), Waited (ds ! (Suc k + length fs)) True])"
    using assms(1) unfolding retry_history_def by blast
  then show ?thesis
    unfolding retry_history_def drop using assms(2) by (intro exI [of _ "f # fs"]) auto
qed

lemma retry_history_last:
  "k \<le> length ds \<Longrightarrow> retry_history ds k [Attempted (Inr v)] (Inr v)"
  "k \<le> length ds \<Longrightarrow> \<not> is_retryable f \<or> length ds \<le> k \<Longrightarrow>
     retry_history ds k [Attempted (Inl f)] (Inl (with_attempt_count f (Suc k)))"
  "k < length ds \<Longrightarrow> is_retryable f \<Longrightarrow>
     retry_history ds k [Attempted (Inl f), Waited (ds ! k) True] (Inl interrupted_error)"
  unfolding retry_history_def by (rule exI [of _ "[]"], force)+

lemma retry_loop_history:
  "retry_loop ds (log_wait wt) (log_operation operation) k (w, l) = (r, (w', l')) \<Longrightarrow> k \<le> length ds \<Longrightarrow>
     \<exists>h. l' = l @ h \<and> retry_history ds k h r"
proof (induction k w arbitrary: l rule: retry_induct [where operation = operation and ds = ds and wt = wt])
  case (Ok k w v w1)
  then show ?case by (auto simp: retry_loop_Ok logged retry_history_last)
next
  case (Final k w f w1)
  then show ?case by (auto simp: retry_loop_final logged retry_history_last)
next
  case (Interrupted k w f w1 w2)
  then show ?case by (auto simp: retry_loop_interrupted logged retry_history_last)
next
  case (Again k w f w1 w2)
  have "retry_loop ds (log_wait wt) (log_operation operation) k (w, l) =
      retry_loop ds (log_wait wt) (log_operation operation) (Suc k)
        (w2, (l @ [Attempted (Inl f)]) @ [Waited (ds ! k) False])"
    using Again.hyps by (intro retry_loop_again) (assumption | rule logged)+
  with Again.prems Again.hyps Again.IH
  obtain h where "l' = (l @ [Attempted (Inl f)]) @ [Waited (ds ! k) False] @ h"
    and "retry_history ds (Suc k) h r"
    by fastforce
  with Again.hyps show ?case by (auto dest: retry_history_again)
qed

text \<open>
  C5. The retry policy, completely: every run attempts the operation, and as long as the
  failures are retryable and delays remain, waits out the next delay of the schedule and
  attempts again; it stops at the first success, at a non-retryable failure, when the
  schedule is exhausted (with the attempt count in the message of a failure without a
  status) or when a wait is interrupted. No other sequence of attempts and waits occurs.
\<close>

theorem execute_with_retry_history:
  assumes "execute_with_retry ds (log_wait wt) (log_operation operation) (w, []) = (r, (w', h))"
  shows "execute_with_retry ds wt operation w = (r, w') \<and> retry_history ds 0 h r"
proof
  show "execute_with_retry ds wt operation w = (r, w')"
    using assms retry_loop_logged [of ds wt operation 0 w r w' "[]"] by (auto simp: execute_with_retry_def)
  show "retry_history ds 0 h r"
    using assms retry_loop_history [of ds wt operation 0 w "[]" r w' h] by (auto simp: execute_with_retry_def)
qed

definition attempts :: "('a, 'e) event list \<Rightarrow> nat" where
  "attempts h = length (filter (\<lambda>e. case e of Attempted _ \<Rightarrow> True | _ \<Rightarrow> False) h)"

definition waited :: "('a, 'e) event list \<Rightarrow> duration list" where
  "waited h = concat (map (\<lambda>e. case e of Waited d _ \<Rightarrow> [d] | _ \<Rightarrow> []) h)"

lemma attempts_simps [simp]:
  "attempts [] = 0" "attempts (Attempted r # h) = Suc (attempts h)" "attempts (Waited d b # h) = attempts h"
  "attempts (g @ h) = attempts g + attempts h"
  by (simp_all add: attempts_def)

lemma waited_simps [simp]:
  "waited [] = []" "waited (Attempted r # h) = waited h" "waited (Waited d b # h) = d # waited h"
  "waited (g @ h) = waited g @ waited h"
  by (simp_all add: waited_def)

lemma attempts_backoff: "length fs \<le> length ds \<Longrightarrow> attempts (backoff fs ds) = length fs"
  by (induction fs ds rule: backoff.induct) auto

lemma waited_backoff: "length fs \<le> length ds \<Longrightarrow> waited (backoff fs ds) = take (length fs) ds"
  by (induction fs ds rule: backoff.induct) auto

lemma retry_history_attempts: "retry_history ds 0 h r \<Longrightarrow> 1 \<le> attempts h \<and> attempts h \<le> length ds + 1"
  by (auto simp: retry_history_def attempts_backoff)

lemma retry_history_waited: "retry_history ds 0 h r \<Longrightarrow> waited h = take (length (waited h)) ds"
  by (auto simp: retry_history_def waited_backoff take_Suc_conv_app_nth)

text \<open>
  The schedule bounds a delivery: with the default delays a run makes at least one and
  at most six attempts, and the delays it asks for are a prefix of 0.5, 1, 2, 4 and 8
  seconds, 15.5 seconds in total.
\<close>

lemma default_schedule_bounds:
  assumes "execute_with_retry DEFAULT_RETRY_DELAYS (log_wait wt) (log_operation operation) (w, []) = (r, (w', h))"
  shows "1 \<le> attempts h \<and> attempts h \<le> 6 \<and> (\<exists>n. waited h = take n DEFAULT_RETRY_DELAYS) \<and>
         sum_list (waited h) \<le> from_millis 15500"
proof -
  have hist: "retry_history DEFAULT_RETRY_DELAYS 0 h r"
    using assms retry_loop_history [of DEFAULT_RETRY_DELAYS wt operation 0 w "[]" r w' h]
    by (auto simp: execute_with_retry_def)
  obtain n where n: "waited h = take n DEFAULT_RETRY_DELAYS" using retry_history_waited [OF hist] ..
  have "sum_list (take n DEFAULT_RETRY_DELAYS) \<le> sum_list DEFAULT_RETRY_DELAYS"
    by (metis append_take_drop_id le_add1 sum_list_append)
  also have "\<dots> = from_millis 15500" by (simp add: DEFAULT_RETRY_DELAYS_def from_millis_def)
  finally show ?thesis
    using n retry_history_attempts [OF hist] by (auto simp: DEFAULT_RETRY_DELAYS_def)
qed

text \<open>
  The loop from failure to failure: if the \<open>k\<close>-th attempt, made in a state of \<open>before k\<close>, fails
  retryably in a state of \<open>after k\<close>, and the wait that follows is not interrupted and leads
  to \<open>before (k + 1)\<close>, then the schedule is exhausted.
\<close>

lemma retry_loop_exhausts:
  assumes "retry_loop ds wt operation k w = (r, w')" and "k \<le> length ds" and "before k w"
    and "\<And>k w. before k w \<Longrightarrow> \<exists>f w'. operation w = (Inl f, w') \<and> is_retryable f \<and> P f \<and> after k w'"
    and "\<And>k w. after k w \<Longrightarrow> k < length ds \<Longrightarrow> \<exists>w'. wt (ds ! k) w = (False, w') \<and> before (Suc k) w'"
  shows "\<exists>f. P f \<and> r = Inl (with_attempt_count f (length ds + 1)) \<and> after (length ds) w'"
  using assms(1,2,3)
proof (induction k w rule: retry_induct [where operation = operation and ds = ds and wt = wt])
  case (Ok k w v w1)
  with assms(4) [of k w] show ?case by auto
next
  case (Final k w f w1)
  with assms(4) [of k w] show ?case by (auto simp: retry_loop_final)
next
  case (Interrupted k w f w1 w2)
  with assms(4) [of k w] assms(5) [of k w1] show ?case by auto
next
  case (Again k w f w1 w2)
  then have "before (Suc k) w2" using assms(4) [of k w] assms(5) [of k w1] by auto
  with Again show ?case by (simp add: retry_loop_again)
qed

text \<open>
  A persistent outage is retried to the end of the schedule: when every attempt fails
  retryably and no wait is interrupted, the operation is attempted once more than there are
  delays and the last failure is returned, its message extended by the attempt count
  exactly when it has no status.
\<close>

lemma outage_exhausts_schedule:
  assumes fails: "\<And>w. fst (operation w) = Inl f" and retryable: "is_retryable f"
    and uninterrupted: "\<And>d w. \<not> fst (wt d w)"
    and run: "execute_with_retry ds (log_wait wt) (log_operation operation) (w, []) = (r, (w', h))"
  shows "attempts h = length ds + 1 \<and> waited h = ds \<and> r = Inl (with_attempt_count f (length ds + 1))"
proof -
  have "retry_loop ds (log_wait wt) (log_operation operation) k (w, l) = (r, (w', l')) \<Longrightarrow> k \<le> length ds \<Longrightarrow>
      attempts l' = attempts l + (length ds - k) + 1 \<and> waited l' = waited l @ drop k ds \<and>
      r = Inl (with_attempt_count f (length ds + 1))" for k w l l'
  proof (induction k w arbitrary: l rule: retry_induct [where operation = operation and ds = ds and wt = wt])
    case (Ok k w v w1)
    with fails [of w] show ?case by simp
  next
    case (Final k w g w1)
    with fails [of w] retryable show ?case by (auto simp: retry_loop_final logged)
  next
    case (Interrupted k w g w1 w2)
    with uninterrupted [of "ds ! k" w1] show ?case by simp
  next
    case (Again k w g w1 w2)
    have "retry_loop ds (log_wait wt) (log_operation operation) k (w, l) =
        retry_loop ds (log_wait wt) (log_operation operation) (Suc k)
          (w2, (l @ [Attempted (Inl g)]) @ [Waited (ds ! k) False])"
      using Again.hyps by (intro retry_loop_again) (assumption | rule logged)+
    with Again.prems Again.hyps Again.IH [of "(l @ [Attempted (Inl g)]) @ [Waited (ds ! k) False]"]
    show ?case by (auto simp: Cons_nth_drop_Suc)
  qed
  from this [of 0 w "[]" h] run show ?thesis by (simp add: execute_with_retry_def)
qed

subsection \<open>What the loop relies on its operation for\<close>

text \<open>
  The interface of an operation that sends one request per attempt: \<open>sent\<close> is what has left
  the process, waiting sends nothing.
\<close>

locale attempt_sends =
  fixes operation :: "('w, 'a, 'e) operation"
    and wait_for :: "'w waiting"
    and sent :: "'w \<Rightarrow> 'q list"
    and request :: 'q
  assumes operation_sends: "sent (snd (operation w)) = sent w @ [request]"
    and wait_sends_nothing: "sent (snd (wait_for d w)) = sent w"
begin

lemma operation_sends': "operation w = (r, w') \<Longrightarrow> sent w' = sent w @ [request]"
  using operation_sends [of w] by simp

lemma wait_sends_nothing': "wait_for d w = (b, w') \<Longrightarrow> sent w' = sent w"
  using wait_sends_nothing [of d w] by simp

lemma retry_loop_sends:
  assumes "retry_loop ds wait_for operation k w = (r, w')" and "k \<le> length ds"
  shows "\<exists>n. 1 \<le> n \<and> n \<le> length ds - k + 1 \<and> sent w' = sent w @ replicate n request"
  using assms
proof (induction k w rule: retry_induct [where operation = operation and ds = ds and wt = wait_for])
  case (Ok k w v w1)
  then show ?case by (intro exI [of _ 1]) (auto simp: retry_loop_Ok dest!: operation_sends')
next
  case (Final k w f w1)
  then show ?case by (intro exI [of _ 1]) (auto simp: retry_loop_final dest!: operation_sends')
next
  case (Interrupted k w f w1 w2)
  then show ?case
    by (intro exI [of _ 1]) (auto simp: retry_loop_interrupted dest!: operation_sends' wait_sends_nothing')
next
  case (Again k w f w1 w2)
  then obtain n where "1 \<le> n" "n \<le> length ds - Suc k + 1" "sent w' = sent w2 @ replicate n request"
    by (auto simp: retry_loop_again)
  moreover have "sent w2 = sent w @ [request]"
    using Again.hyps by (auto dest!: operation_sends' wait_sends_nothing')
  ultimately show ?case using Again.hyps by (intro exI [of _ "Suc n"]) auto
qed

lemma execute_with_retry_sends:
  assumes "execute_with_retry ds wait_for operation w = (r, w')"
  shows "\<exists>n. 1 \<le> n \<and> n \<le> length ds + 1 \<and> sent w' = sent w @ replicate n request"
  using retry_loop_sends [of ds 0 w r w'] assms by (simp add: execute_with_retry_def)

end

text \<open>The same with a clock: each attempt and each wait ends within its budget.\<close>

locale timed_attempts = attempt_sends operation wait_for sent request
  for operation :: "('w, 'a, 'e) operation"
    and wait_for :: "'w waiting"
    and sent :: "'w \<Rightarrow> 'q list"
    and request :: 'q +
  fixes clock :: "'w \<Rightarrow> instant"
    and attempt_budget :: duration
    and lag :: "'w \<Rightarrow> duration"
  assumes operation_time: "clock (snd (operation w)) \<le> clock w + attempt_budget"
    and wait_time: "clock (snd (wait_for d w)) \<le> clock w + d + lag w"
    and operation_lag: "lag (snd (operation w)) = lag w"
    and wait_lag: "lag (snd (wait_for d w)) = lag w"
begin

lemma operation_time': "operation w = (r, w') \<Longrightarrow> clock w' \<le> clock w + attempt_budget \<and> lag w' = lag w"
  using operation_time [of w] operation_lag [of w] by simp

lemma wait_time': "wait_for d w = (b, w') \<Longrightarrow> clock w' \<le> clock w + d + lag w \<and> lag w' = lag w"
  using wait_time [of d w] wait_lag [of d w] by simp

lemma retry_loop_time:
  assumes "retry_loop ds wait_for operation k w = (r, w')" and "k \<le> length ds"
  shows "clock w' \<le> clock w + (length ds - k + 1) * attempt_budget + sum_list (drop k ds) + (length ds - k) * lag w"
  using assms
proof (induction k w rule: retry_induct [where operation = operation and ds = ds and wt = wait_for])
  case (Ok k w v w1)
  then show ?case by (auto simp: retry_loop_Ok dest!: operation_time')
next
  case (Final k w f w1)
  then show ?case by (auto simp: retry_loop_final dest!: operation_time')
next
  case (Interrupted k w f w1 w2)
  have "clock w' \<le> clock w + attempt_budget + ds ! k + lag w"
    using Interrupted by (auto simp: retry_loop_interrupted dest!: operation_time' wait_time')
  moreover have "drop k ds = ds ! k # drop (Suc k) ds" and "length ds - k = Suc (length ds - Suc k)"
    using Interrupted.hyps by (simp_all add: Cons_nth_drop_Suc Suc_diff_Suc)
  ultimately show ?case by simp
next
  case (Again k w f w1 w2)
  then have "clock w' \<le> clock w2 + (length ds - Suc k + 1) * attempt_budget + sum_list (drop (Suc k) ds) +
      (length ds - Suc k) * lag w2"
    by (simp add: retry_loop_again)
  moreover have "clock w2 \<le> clock w + attempt_budget + ds ! k + lag w" and "lag w2 = lag w"
    using Again.hyps by (auto dest!: operation_time' wait_time')
  moreover have "drop k ds = ds ! k # drop (Suc k) ds" and "length ds - k = Suc (length ds - Suc k)"
    using Again.hyps by (simp_all add: Cons_nth_drop_Suc Suc_diff_Suc)
  ultimately show ?case by simp
qed

lemma execute_with_retry_time:
  assumes "execute_with_retry ds wait_for operation w = (r, w')"
  shows "clock w' \<le> clock w + (length ds + 1) * attempt_budget + sum_list ds + length ds * lag w"
  using retry_loop_time [of ds 0 w r w'] assms by (simp add: execute_with_retry_def)

end

subsection \<open>Concrete runs\<close>

text \<open>An operation that fails with 503 until its third attempt, an outage, and an undisturbed wait.\<close>

definition flaky :: "(nat, unit, unit) operation" where
  "flaky n = (if n < 2 then Inl (delivery (lit ''503'') 503 True) else Inr (), n + 1)"

definition outage :: "(nat, unit, unit) operation" where
  "outage n = (Inl (delivery (lit ''connection refused'') NO_STATUS_CODE True), n + 1)"

definition undisturbed :: "nat waiting" where
  "undisturbed d n = (False, n)"

lemma flaky_run:
  "execute_with_retry DEFAULT_RETRY_DELAYS (log_wait undisturbed) (log_operation flaky) (0, []) =
     (Inr (), (3,
       [Attempted (Inl (delivery (lit ''503'') 503 True)), Waited (from_millis 500) False,
        Attempted (Inl (delivery (lit ''503'') 503 True)), Waited (from_millis 1000) False,
        Attempted (Inr ())]))"
  by (simp add: execute_with_retry_def retry_loop.simps log_wait_def log_operation_def flaky_def
      undisturbed_def DEFAULT_RETRY_DELAYS_def delivery_def)

theorem execute_with_retry_history_witness:
  "execute_with_retry DEFAULT_RETRY_DELAYS undisturbed flaky 0 = (Inr (), 3) \<and>
   retry_history DEFAULT_RETRY_DELAYS 0
     [Attempted (Inl (delivery (lit ''503'') 503 True)), Waited (from_millis 500) False,
      Attempted (Inl (delivery (lit ''503'') 503 True)), Waited (from_millis 1000) False,
      Attempted (Inr ())] (Inr () :: (unit, unit IncidentError) result)"
  by (rule execute_with_retry_history [OF flaky_run])

end
