(* ===== verification/Transport.thy ===== *)
theory Transport
  imports Wire Retry
begin

text \<open>
  \<^verbatim>\<open>src/rust/src/internal/transport.rs\<close>: one HTTP attempt and the retry decision each
  outcome carries. \<^verbatim>\<open>ureq\<close> is a parameter: a function from the agent's configuration, the
  request and the state \<open>'n\<close> of the network to a transport error or a response, and the new
  state.
\<close>

definition DEFAULT_ENDPOINT :: rstring where
  "DEFAULT_ENDPOINT = lit ''https://api.oppex.ai/api/v1/incident/post''"

definition CONNECT_TIMEOUT :: duration where
  "CONNECT_TIMEOUT = from_secs 3"

definition SOCKET_TIMEOUT :: duration where
  "SOCKET_TIMEOUT = from_secs 5"

definition ATTEMPT_TIMEOUT :: duration where
  "ATTEMPT_TIMEOUT = from_secs 8"

definition MAX_CONNECTIONS :: nat where
  "MAX_CONNECTIONS = 20"

definition MAX_RESPONSE_BYTES :: nat where
  "MAX_RESPONSE_BYTES = 1024 * 1024"

text \<open>The agent's configuration, a request as the agent is given it, and a response: the
  status and the outcome of reading the body under a byte limit.\<close>

record AgentConfig =
  timeout_connect :: "duration option"
  timeout_recv_response :: "duration option"
  timeout_global :: "duration option"
  max_idle_connections :: nat
  max_idle_connections_per_host :: nat
  http_status_as_error :: bool

record HttpRequest =
  hq_url :: rstring
  hq_headers :: "(rstring \<times> rstring) list"
  hq_body :: rstring

record 'e HttpResponse =
  hr_status :: u16
  hr_read_to_string :: "nat \<Rightarrow> (rstring, 'e) result"

type_synonym ('n, 'e) ureq = "AgentConfig \<Rightarrow> HttpRequest \<Rightarrow> 'n \<Rightarrow> ('e HttpResponse, 'e) result \<times> 'n"

record Transport =
  api_key :: rstring
  endpoint_url :: rstring
  agent :: AgentConfig

text \<open>\<^verbatim>\<open>endpoint()\<close>, over the value of the environment variable \<^verbatim>\<open>OPPEX_TEST_ENDPOINT_URL\<close>.\<close>

definition endpoint :: "rstring option \<Rightarrow> rstring" where
  "endpoint env_var = unwrap_or (option_filter (\<lambda>url. url \<noteq> []) env_var) DEFAULT_ENDPOINT"

definition with_endpoint :: "rstring \<Rightarrow> rstring \<Rightarrow> Transport" where
  "with_endpoint key url =
     \<lparr>api_key = key, endpoint_url = url,
      agent = \<lparr>timeout_connect = Some CONNECT_TIMEOUT, timeout_recv_response = Some SOCKET_TIMEOUT,
               timeout_global = Some ATTEMPT_TIMEOUT, max_idle_connections = MAX_CONNECTIONS,
               max_idle_connections_per_host = MAX_CONNECTIONS, http_status_as_error = False\<rparr>\<rparr>"

definition transport_new :: "rstring option \<Rightarrow> rstring \<Rightarrow> Transport" where
  "transport_new env_var key = with_endpoint key (endpoint env_var)"

definition status_failure :: "('v, 'e) serde_json \<Rightarrow> int \<Rightarrow> rstring \<Rightarrow> 'e IncidentError" where
  "status_failure J status body =
     (let message = lit ''Oppex returned HTTP '' @ show_int status;
          message =
            (case parse_response J status body of
               Inr parsed \<Rightarrow>
                 (case response_message parsed of
                    Some detail \<Rightarrow> if \<not> is_blank detail then message @ lit '': '' @ detail else message
                  | None \<Rightarrow> message)
             | Inl _ \<Rightarrow> message)
      in delivery message status (is_retryable_status status))"

definition http_request :: "Transport \<Rightarrow> rstring \<Rightarrow> HttpRequest" where
  "http_request t payload =
     \<lparr>hq_url = endpoint_url t,
      hq_headers = [(lit ''Content-Type'', lit ''application/json''), (lit ''Accept'', lit ''application/json''),
                    (lit ''X-API-KEY'', api_key t)],
      hq_body = payload\<rparr>"

definition receive :: "('v, 'e) serde_json \<Rightarrow> 'e HttpResponse \<Rightarrow> (IncidentResponse, 'e IncidentError) result" where
  "receive J response =
     (let status = uint (hr_status response) in
      tryr (case hr_read_to_string response MAX_RESPONSE_BYTES of
              Inl cause \<Rightarrow>
                Inl (delivery_caused_by (lit ''reading the Oppex response body'') NO_STATUS_CODE True cause)
            | Inr body \<Rightarrow> Inr body) (\<lambda>body.
      if 200 \<le> status \<and> status < 300 then parse_response J status body
      else Inl (status_failure J status body)))"

definition send ::
  "('v, 'e) serde_json \<Rightarrow> ('n, 'e) ureq \<Rightarrow> Transport \<Rightarrow> rstring \<Rightarrow> ('n, IncidentResponse, 'e) operation" where
  "send J ureq t payload n =
     (case ureq (agent t) (http_request t payload) n of
        (Inl cause, n') \<Rightarrow>
          (Inl (delivery_caused_by (lit ''incident delivery failed before a response was received'')
             NO_STATUS_CODE True cause), n')
      | (Inr response, n') \<Rightarrow> (receive J response, n'))"

subsection \<open>The retry decision\<close>

lemma parse_response_error_fields:
  "parse_response J status body = Inl e \<Longrightarrow>
     is_delivery e \<and> \<not> is_retryable e \<and> (status \<noteq> NO_STATUS_CODE \<longrightarrow> status_code e = Some status) \<and>
     error_source e = (case from_str J body of Inl cause \<Rightarrow> Some cause | Inr _ \<Rightarrow> None)"
  by (auto simp: parse_response_eq_Inl)

lemma status_failure_fields [simp]:
  "is_delivery (status_failure J status body)"
  "is_retryable (status_failure J status body) = is_retryable_status status"
  "error_source (status_failure J status body) = None"
  "status \<noteq> NO_STATUS_CODE \<Longrightarrow> status_code (status_failure J status body) = Some status"
  by (simp_all add: status_failure_def delivery_def Let_def)

lemma uint_status_code [simp]: "uint (w :: u16) \<noteq> NO_STATUS_CODE"
proof -
  have "0 \<le> uint w" by simp
  then show ?thesis unfolding NO_STATUS_CODE_def by linarith
qed

lemma receive_unreadable:
  "hr_read_to_string response MAX_RESPONSE_BYTES = Inl cause \<Longrightarrow>
     receive J response = Inl (Delivery (lit ''reading the Oppex response body'') NO_STATUS_CODE True (Some cause))"
  by (simp add: receive_def delivery_caused_by_def)

lemma receive_readable:
  "hr_read_to_string response MAX_RESPONSE_BYTES = Inr body \<Longrightarrow>
     receive J response =
       (if 200 \<le> uint (hr_status response) \<and> uint (hr_status response) < 300
        then parse_response J (uint (hr_status response)) body
        else Inl (status_failure J (uint (hr_status response)) body))"
  by (simp add: receive_def Let_def)

text \<open>
  C17. The retry decision, status and cause of every failed attempt. The failure is a delivery
  error. If the agent failed, it is retryable, without a status, caused by the agent's error. If
  the body of a response could not be read, it is retryable, without a status, caused by the
  read error, whatever the status line said. If the body was read, it is retryable exactly for
  the statuses 429, 500, 502, 503 and 504, reports the status, and has a cause only when it is
  a 2xx answer that is not JSON: the error of \<^verbatim>\<open>serde_json\<close>. The second case is not the one the
  documentation gives, where a status outside the list fails at once and only an attempt that
  reached no status line has none.
\<close>

theorem send_retry_decision:
  assumes sent: "send J ureq t payload n = (Inl e, n')"
  shows "is_delivery e \<and>
    (case fst (ureq (agent t) (http_request t payload) n) of
       Inl cause \<Rightarrow> is_retryable e \<and> status_code e = None \<and> error_source e = Some cause
     | Inr response \<Rightarrow>
         (case hr_read_to_string response MAX_RESPONSE_BYTES of
            Inl cause \<Rightarrow> is_retryable e \<and> status_code e = None \<and> error_source e = Some cause
          | Inr body \<Rightarrow>
              is_retryable e = is_retryable_status (uint (hr_status response)) \<and>
              status_code e = Some (uint (hr_status response)) \<and>
              error_source e =
                (if 200 \<le> uint (hr_status response) \<and> uint (hr_status response) < 300
                 then (case from_str J body of Inl cause \<Rightarrow> Some cause | Inr _ \<Rightarrow> None) else None)))"
proof -
  obtain res n1 where u: "ureq (agent t) (http_request t payload) n = (res, n1)" by fastforce
  show ?thesis
  proof (cases res)
    case (Inl cause)
    with sent u show ?thesis by (auto simp: send_def delivery_caused_by_def)
  next
    case (Inr response)
    with sent u have r: "receive J response = Inl e" by (simp add: send_def)
    show ?thesis
    proof (cases "hr_read_to_string response MAX_RESPONSE_BYTES")
      case (Inl cause)
      with u Inr r show ?thesis by (auto simp: receive_unreadable)
    next
      case read: (Inr body)
      have ok: "\<not> is_retryable_status s" if "200 \<le> s \<and> s < 300" for s
        using that by (auto simp: is_retryable_status_def)
      from r read u Inr show ?thesis
        by (auto simp: receive_readable ok split: if_splits dest!: parse_response_error_fields)
    qed
  qed
qed

text \<open>An attempt succeeds only on a 2xx status whose body was read within the limit.\<close>

lemma send_success_is_2xx:
  assumes "send J ureq t payload n = (Inr r, n')"
  shows "\<exists>response body. fst (ureq (agent t) (http_request t payload) n) = Inr response \<and>
    hr_read_to_string response MAX_RESPONSE_BYTES = Inr body \<and>
    200 \<le> uint (hr_status response) \<and> uint (hr_status response) < 300 \<and>
    parse_response J (uint (hr_status response)) body = Inr r"
  using assms
  by (auto simp: send_def receive_def Let_def tryr_eq_Inr split: prod.splits sum.splits if_splits)

text \<open>
  A status alone does not make a failure final: whatever the status line said, a response
  whose body cannot be read is reported without its status and as retryable, so a 401 (or a
  200) with an oversized or broken body is attempted again.
\<close>

lemma unreadable_body_hides_status:
  assumes "ureq (agent t) (http_request t payload) n = (Inr response, n')"
    and "hr_read_to_string response MAX_RESPONSE_BYTES = Inl cause"
  shows "\<exists>e. send J ureq t payload n = (Inl e, n') \<and> is_retryable e \<and> status_code e = None"
  using assms by (simp add: send_def receive_unreadable)

text \<open>An agent that answers every request with a fixed status and body, for concrete runs.\<close>

definition fixed_agent :: "u16 \<Rightarrow> (rstring, 'e) result \<Rightarrow> (nat, 'e) ureq" where
  "fixed_agent status body config request n =
     (Inr \<lparr>hr_status = status, hr_read_to_string = (\<lambda>limit. body)\<rparr>, n + 1)"

lemma fixed_agent_send:
  "send J (fixed_agent status body) t payload n =
     (receive J \<lparr>hr_status = status, hr_read_to_string = (\<lambda>limit. body)\<rparr>, n + 1)"
  by (simp add: send_def fixed_agent_def)

definition sample_transport :: Transport where
  "sample_transport = transport_new None (lit ''api-key'')"

lemma sample_401:
  "send rfc_serde (fixed_agent 401 (Inr [])) sample_transport [] 0 =
     (Inl (Delivery (lit ''Oppex returned HTTP '' @ show_int 401) 401 False None), 1)"
  by (simp add: fixed_agent_send receive_def status_failure_def parse_response_blank response_new_def
      response_message_def delivery_def is_retryable_status_def)

theorem send_retry_decision_witness:
  "is_delivery (Delivery (lit ''Oppex returned HTTP '' @ show_int 401) 401 False (None :: unit option)) \<and>
   status_code (Delivery (lit ''Oppex returned HTTP '' @ show_int 401) 401 False (None :: unit option)) = Some 401 \<and>
   error_source (Delivery (lit ''Oppex returned HTTP '' @ show_int 401) 401 False (None :: unit option)) = None"
  using send_retry_decision [OF sample_401] by (simp add: fixed_agent_def)

end
