(* ===== verification/Drop_Logger.thy ===== *)
theory Drop_Logger
  imports Prelude
begin

text \<open>
  \<^verbatim>\<open>src/rust/src/internal/drop_logger.rs\<close>: counting drops and releasing at most one summary
  per interval. The counter is a 64-bit word (\<^verbatim>\<open>+=\<close> wraps in a release build); the two
  readings of the clock in \<^verbatim>\<open>record_drop\<close> are arguments.
\<close>

definition DROP_LOG_INTERVAL :: duration where
  "DROP_LOG_INTERVAL = from_secs 60"

record RateLimitedDropLogger =
  interval :: duration
  dropped :: u64
  started_at :: instant

definition drop_logger_new :: "duration \<Rightarrow> instant \<Rightarrow> RateLimitedDropLogger" where
  "drop_logger_new i now = \<lparr>interval = i, dropped = 0, started_at = now\<rparr>"

definition record_drop ::
  "instant \<Rightarrow> instant \<Rightarrow> RateLimitedDropLogger \<Rightarrow> u64 option \<times> RateLimitedDropLogger" where
  "record_drop now now' lg =
     (let lg = lg\<lparr>dropped := dropped lg + 1\<rparr> in
      if elapsed (started_at lg) now < interval lg then (None, lg)
      else (Some (dropped lg), lg\<lparr>dropped := 0, started_at := now'\<rparr>))"

text \<open>Drops recorded one after the other, each with its two clock readings.\<close>

fun record_drops ::
  "(instant \<times> instant) list \<Rightarrow> RateLimitedDropLogger \<Rightarrow> u64 option list \<times> RateLimitedDropLogger" where
  "record_drops [] lg = ([], lg)"
| "record_drops ((now, now') # ts) lg =
     (case record_drop now now' lg of (r, lg1) \<Rightarrow>
        (case record_drops ts lg1 of (rs, lg2) \<Rightarrow> (r # rs, lg2)))"

definition reported :: "u64 option list \<Rightarrow> nat" where
  "reported rs = (\<Sum>r\<leftarrow>rs. case r of None \<Rightarrow> 0 | Some n \<Rightarrow> unat n)"

lemma reported_simps [simp]:
  "reported [] = 0" "reported (None # rs) = reported rs" "reported (Some n # rs) = unat n + reported rs"
  by (simp_all add: reported_def)

lemma unat_Suc_u64: "unat (w :: u64) + 1 < 2 ^ 64 \<Longrightarrow> unat (w + 1) = unat w + 1"
  by (simp add: unat_word_ariths)

lemma record_drop_counts:
  assumes "unat (dropped lg) + 1 < 2 ^ 64" and "record_drop now now' lg = (r, lg')"
  shows "reported [r] + unat (dropped lg') = unat (dropped lg) + 1"
  using assms unat_Suc_u64 [of "dropped lg"] by (auto simp: record_drop_def Let_def split: if_splits)

text \<open>
  C33. Every drop is counted once: over any sequence of drops (fewer than \<open>2 ^ 64\<close>), the
  counts handed out for logging plus the count still held equal the number of drops.
\<close>

theorem drops_are_conserved:
  assumes "unat (dropped lg) + length ts < 2 ^ 64" and "record_drops ts lg = (rs, lg')"
  shows "reported rs + unat (dropped lg') = unat (dropped lg) + length ts"
  using assms
proof (induction ts arbitrary: lg rs)
  case (Cons t ts)
  obtain now now' where t: "t = (now, now')" by fastforce
  obtain r lg1 where r: "record_drop now now' lg = (r, lg1)" by fastforce
  obtain rs1 where rs1: "record_drops ts lg1 = (rs1, lg')" "rs = r # rs1"
    using Cons.prems(2) t r by (auto split: prod.splits)
  have one: "reported [r] + unat (dropped lg1) = unat (dropped lg) + 1"
    using record_drop_counts [OF _ r] Cons.prems(1) by simp
  then have "unat (dropped lg1) + length ts < 2 ^ 64" using Cons.prems(1) by simp
  from Cons.IH [OF this rs1(1)] one show ?case by (cases r) (auto simp: rs1(2))
qed simp

text \<open>The clock readings of the drops that released a summary.\<close>

fun summaries :: "(instant \<times> instant) list \<Rightarrow> u64 option list \<Rightarrow> (instant \<times> instant) list" where
  "summaries (t # ts) (r # rs) = (if r = None then summaries ts rs else t # summaries ts rs)"
| "summaries _ _ = []"

lemma record_drop_interval: "record_drop now now' lg = (r, lg') \<Longrightarrow> interval lg' = interval lg"
  by (auto simp: record_drop_def Let_def split: if_splits)

lemma record_drop_None: "record_drop now now' lg = (None, lg') \<Longrightarrow> started_at lg' = started_at lg"
  by (auto simp: record_drop_def Let_def split: if_splits)

lemma record_drop_Some:
  "record_drop now now' lg = (Some n, lg') \<Longrightarrow> interval lg \<le> now - started_at lg \<and> started_at lg' = now'"
  by (auto simp: record_drop_def Let_def elapsed_def split: if_splits)

lemma summaries_spaced_from:
  assumes "record_drops ts lg = (rs, lg')" and "0 < interval lg"
  shows "successively (\<lambda>(_, reset) (now, _). reset + interval lg \<le> now)
           ((t0, started_at lg) # summaries ts rs)"
  using assms
proof (induction ts arbitrary: lg rs t0)
  case (Cons t ts)
  obtain now now' where t: "t = (now, now')" by fastforce
  obtain r lg1 where r: "record_drop now now' lg = (r, lg1)" by fastforce
  obtain rs1 where rs1: "record_drops ts lg1 = (rs1, lg')" "rs = r # rs1"
    using Cons.prems(1) t r by (auto split: prod.splits)
  have i: "interval lg1 = interval lg" using r by (rule record_drop_interval)
  show ?case
  proof (cases r)
    case None
    with Cons.IH [OF rs1(1), of t0] r Cons.prems(2) i show ?thesis
      by (simp add: rs1(2) record_drop_None)
  next
    case (Some n)
    with r have "interval lg \<le> now - started_at lg" and s: "started_at lg1 = now'"
      by (auto dest: record_drop_Some)
    then have "started_at lg + interval lg \<le> now" using Cons.prems(2) by simp
    with Cons.IH [OF rs1(1), of now] i s Some Cons.prems(2) show ?thesis by (simp add: rs1(2) t)
  qed
qed simp

text \<open>
  At most one summary per interval: each drop that releases a summary happens at least
  one full interval after the counter was last reset, by the previous summary or at
  creation.
\<close>

lemma summaries_are_rate_limited:
  assumes "record_drops ts (drop_logger_new i now) = (rs, lg)" and "0 < i"
  shows "successively (\<lambda>(_, reset) (now, _). reset + i \<le> now) ((now, now) # summaries ts rs)"
  using summaries_spaced_from [OF assms(1), of now] assms(2) by (simp add: drop_logger_new_def)

lemma sample_drops:
  "record_drops [(5, 5), (65, 66), (70, 70)] (drop_logger_new 60 0) =
     ([None, Some 2, None], \<lparr>interval = 60, dropped = 1, started_at = 66\<rparr>)"
  by (simp add: record_drop_def drop_logger_new_def elapsed_def)

theorem drops_are_conserved_witness:
  "reported [None, Some 2, None] + unat (1 :: u64) = 3"
  using drops_are_conserved [OF _ sample_drops] by (simp add: drop_logger_new_def)

end
