(* ===== verification/Dispatcher.thy ===== *)
theory Dispatcher
  imports Drop_Logger
begin

text \<open>
  \<^verbatim>\<open>src/rust/src/internal/dispatcher.rs\<close>, one critical section at a time: the state behind
  the mutex and what \<^verbatim>\<open>submit\<close>, \<^verbatim>\<open>work\<close>, \<^verbatim>\<open>close\<close> and \<^verbatim>\<open>drain_until\<close> do to it while they
  hold the lock. \<^verbatim>\<open>Dispatcher_Threads\<close> interleaves these sections. A task is opaque here
  (\<open>'task\<close>); \<^verbatim>\<open>usize\<close> is a 64-bit word.
\<close>

definition QUEUE_CAPACITY :: nat where
  "QUEUE_CAPACITY = 5000"

definition WORKER_COUNT :: nat where
  "WORKER_COUNT = 2"

definition CLOSE_DRAIN_TIMEOUT :: duration where
  "CLOSE_DRAIN_TIMEOUT = from_secs 10"

record 'task State =
  tasks :: "'task list"
  accepting :: bool
  draining :: bool
  active :: usize

record 'task Shared =
  capacity :: nat
  state :: "'task State"
  drop_logger :: RateLimitedDropLogger

definition shared_new :: "nat \<Rightarrow> instant \<Rightarrow> 'task Shared" where
  "shared_new cap now =
     \<lparr>capacity = cap,
      state = \<lparr>tasks = [], accepting = True, draining = True, active = 0\<rparr>,
      drop_logger = drop_logger_new DROP_LOG_INTERVAL now\<rparr>"

text \<open>
  \<^verbatim>\<open>submit\<close> under the lock: whether the task was accepted, the count to warn about, and the
  new shared state. The two clock readings are those of \<^verbatim>\<open>record_drop\<close>.
\<close>

definition submit :: "instant \<Rightarrow> instant \<Rightarrow> 'task \<Rightarrow> 'task Shared \<Rightarrow> bool \<times> u64 option \<times> 'task Shared" where
  "submit now now' task sh =
     (if \<not> accepting (state sh) then (False, None, sh)
      else
        let (warned, sh) =
              (if capacity sh \<le> length (tasks (state sh))
               then (case record_drop now now' (drop_logger sh) of
                       (summary, lg) \<Rightarrow>
                         (summary, sh\<lparr>state := (state sh)\<lparr>tasks := tl (tasks (state sh))\<rparr>, drop_logger := lg\<rparr>))
               else (None, sh))
        in (True, warned, sh\<lparr>state := (state sh)\<lparr>tasks := tasks (state sh) @ [task]\<rparr>\<rparr>))"

text \<open>The inner loop of \<^verbatim>\<open>work\<close>: take a task, exit, or wait for a change.\<close>

datatype 'task polled = Took 'task | Exit | Block

definition work_poll :: "'task State \<Rightarrow> 'task polled \<times> 'task State" where
  "work_poll s =
     (case tasks s of
        task # rest \<Rightarrow> (Took task, s\<lparr>tasks := rest, active := active s + 1\<rparr>)
      | [] \<Rightarrow> if \<not> draining s then (Exit, s) else (Block, s))"

definition work_done :: "'task State \<Rightarrow> 'task State" where
  "work_done s = s\<lparr>active := active s - 1\<rparr>"

text \<open>\<^verbatim>\<open>close\<close> up to its first unlock; \<open>None\<close> is the early return of a repeated call.\<close>

definition close_begin :: "'task State \<Rightarrow> 'task State option" where
  "close_begin s = (if \<not> accepting s then None else Some (s\<lparr>accepting := False\<rparr>))"

text \<open>
  One turn of the \<^verbatim>\<open>while\<close> of \<^verbatim>\<open>drain_until\<close>: \<open>Some remaining\<close> to wait on, or \<open>None\<close> to
  leave, because nothing is left or because the deadline has passed; then its tail.
\<close>

definition drain_turn :: "instant \<Rightarrow> instant \<Rightarrow> 'task State \<Rightarrow> duration option" where
  "drain_turn deadline now s =
     (if tasks s \<noteq> [] \<or> active s > 0 then checked_duration_since deadline now else None)"

definition drain_finish :: "'task State \<Rightarrow> nat \<times> 'task State" where
  "drain_finish s = (length (tasks s), s\<lparr>draining := False, tasks := []\<rparr>)"

text \<open>
  \<^verbatim>\<open>drain_until\<close> and \<^verbatim>\<open>close\<close> as the closing thread goes through them. A turn is a moment at
  which it holds the lock: the time, and what the other threads have done to the state since
  it last held it. \<open>None\<close> is a thread that still waits after the given turns.
\<close>

type_synonym 'task turn = "instant \<times> ('task State \<Rightarrow> 'task State)"

fun drain_until :: "instant \<Rightarrow> 'task turn list \<Rightarrow> 'task State \<Rightarrow> (nat \<times> 'task State) option" where
  "drain_until deadline [] s = None"
| "drain_until deadline ((now, others) # turns) s =
     (case drain_turn deadline now (others s) of
        Some remaining \<Rightarrow> drain_until deadline turns (others s)
      | None \<Rightarrow> Some (drain_finish (others s)))"

definition dispatcher_close ::
  "instant \<Rightarrow> 'task turn list \<Rightarrow> duration \<Rightarrow> 'task Shared \<Rightarrow> (nat \<times> 'task Shared) option" where
  "dispatcher_close now turns timeout sh =
     (case close_begin (state sh) of
        None \<Rightarrow> Some (0, sh)
      | Some s \<Rightarrow> map_option (\<lambda>(abandoned, s'). (abandoned, sh\<lparr>state := s'\<rparr>)) (drain_until (now + timeout) turns s))"

text \<open>
  A drain returns at the first turn that finds nothing left, and at the latest at the first one
  past its deadline; whatever the other threads did, it leaves an empty queue that nobody drains.
\<close>

lemma drain_until_idle: "tasks (others s) = [] \<Longrightarrow> active (others s) = 0 \<Longrightarrow>
    drain_until deadline ((now, others) # turns) s = Some (0, (others s)\<lparr>draining := False, tasks := []\<rparr>)"
  by (simp add: drain_turn_def drain_finish_def)

lemma drain_until_returns:
  "(now, others) \<in> set turns \<Longrightarrow> deadline < now \<Longrightarrow> \<exists>r. drain_until deadline turns s = Some r"
proof (induction turns arbitrary: s)
  case (Cons turn turns)
  obtain now' others' where "turn = (now', others')" by fastforce
  with Cons show ?case
    by (cases "turn = (now, others)")
      (auto simp: drain_turn_def checked_duration_since_def split: option.split)
qed simp

lemma drain_until_result:
  "drain_until deadline turns s = Some (abandoned, s') \<Longrightarrow> \<not> draining s' \<and> tasks s' = []"
  by (induction deadline turns s rule: drain_until.induct) (auto simp: drain_finish_def split: option.splits)

text \<open>The hand-written \<^verbatim>\<open>Debug\<close> of \<^verbatim>\<open>AsyncDispatcher\<close>, in the plain format \<^verbatim>\<open>{:?}\<close>.\<close>

definition dispatcher_debug :: "'task Shared \<Rightarrow> rstring" where
  "dispatcher_debug sh =
     lit ''AsyncDispatcher { capacity: '' @ show_nat (capacity sh) @
     lit '', queued: '' @ show_nat (length (tasks (state sh))) @
     lit '', active: '' @ show_nat (unat (active (state sh))) @
     lit '', accepting: '' @ (if accepting (state sh) then lit ''true'' else lit ''false'') @ lit '', .. }''"

text \<open>It prints how many tasks there are, and nothing of what is in them.\<close>

lemma debug_hides_tasks:
  assumes "length ts = length (tasks (state sh))"
  shows "dispatcher_debug (sh\<lparr>state := (state sh)\<lparr>tasks := ts\<rparr>\<rparr>) = dispatcher_debug sh"
  using assms by (simp add: dispatcher_debug_def)

subsection \<open>The bounded queue\<close>

text \<open>
  What the queue promises: a FIFO that holds at most \<open>cap\<close> elements and forgets the oldest.
  \<open>newest n xs\<close> are the last \<open>n\<close> elements.
\<close>

definition newest :: "nat \<Rightarrow> 'a list \<Rightarrow> 'a list" where
  "newest n xs = drop (length xs - n) xs"

lemma length_newest [simp]: "length (newest n xs) = min n (length xs)"
  by (simp add: newest_def)

lemma newest_all: "length xs \<le> n \<Longrightarrow> newest n xs = xs"
  by (simp add: newest_def)

lemma newest_snoc: "0 < n \<Longrightarrow> newest n (xs @ [x]) = newest (n - 1) xs @ [x]"
  by (cases "length xs < n") (auto simp: newest_def)

lemma newest_newest_snoc: "0 < n \<Longrightarrow> newest n (newest n xs @ [x]) = newest n (xs @ [x])"
  by (cases "n \<le> length xs") (auto simp: newest_def min_def drop_append Suc_diff_le)

lemma newest_newest_append: "0 < n \<Longrightarrow> newest n (newest n xs @ ys) = newest n (xs @ ys)"
  by (cases "n \<le> length xs") (auto simp: newest_def min_def drop_append add.commute)

text \<open>The tasks a submission pushes out: none, or the oldest.\<close>

definition evicted :: "'task Shared \<Rightarrow> 'task list" where
  "evicted sh = (if capacity sh \<le> length (tasks (state sh)) then take 1 (tasks (state sh)) else [])"

lemma submit_refused: "\<not> accepting (state sh) \<Longrightarrow> submit now now' t sh = (False, None, sh)"
  by (simp add: submit_def)

lemma submit_fields:
  assumes "submit now now' t sh = (ok, warned, sh')"
  shows "ok = accepting (state sh)" and "capacity sh' = capacity sh"
    and "accepting (state sh') = accepting (state sh)" and "draining (state sh') = draining (state sh)"
    and "active (state sh') = active (state sh)"
  using assms by (auto simp: submit_def Let_def split: if_splits prod.splits)

lemma submit_tasks:
  assumes "submit now now' t sh = (True, warned, sh')"
  shows "tasks (state sh) @ [t] = evicted sh @ tasks (state sh')"
    and "tasks (state sh') = drop (length (evicted sh)) (tasks (state sh)) @ [t]"
  using assms
  by (cases "tasks (state sh)"; auto simp: submit_def evicted_def Let_def split: if_splits prod.splits)+

lemma submit_length:
  assumes "submit now now' t sh = (True, warned, sh')"
    and "length (tasks (state sh)) \<le> max 1 (capacity sh)"
  shows "length (tasks (state sh')) \<le> max 1 (capacity sh)"
  using assms(2) unfolding submit_tasks(2) [OF assms(1)] by (auto simp: evicted_def split: if_splits)

text \<open>
  The queue drops the oldest: a submission to an open dispatcher is always accepted, and
  as long as the capacity is positive the queue then holds exactly the newest \<open>capacity\<close>
  tasks of what it held and the new one, with the new task last; nothing else of the state
  but the drop counter changes.
\<close>

lemma submit_keeps_newest:
  assumes "accepting (state sh)" and "0 < capacity sh"
    and "length (tasks (state sh)) \<le> capacity sh"
  shows "\<exists>warned lg. submit now now' t sh =
    (True, warned, sh\<lparr>state := (state sh)\<lparr>tasks := newest (capacity sh) (tasks (state sh) @ [t])\<rparr>, drop_logger := lg\<rparr>)"
proof (cases "capacity sh \<le> length (tasks (state sh))")
  case True
  obtain summary lg where rd: "record_drop now now' (drop_logger sh) = (summary, lg)" by fastforce
  from True assms have "newest (capacity sh) (tasks (state sh) @ [t]) = tl (tasks (state sh)) @ [t]"
    by (cases "tasks (state sh)") (simp_all add: newest_def)
  with True assms(1) rd show ?thesis
    by (intro exI [of _ summary] exI [of _ lg]) (simp add: submit_def)
next
  case False
  with assms have "newest (capacity sh) (tasks (state sh) @ [t]) = tasks (state sh) @ [t]"
    by (intro newest_all) simp
  with False assms(1) show ?thesis
    by (intro exI [of _ None] exI [of _ "drop_logger sh"]) (simp add: submit_def)
qed

text \<open>A burst of submissions that no worker interrupts, each at its own time.\<close>

fun submit_all :: "(instant \<times> instant \<times> 'task) list \<Rightarrow> 'task Shared \<Rightarrow> bool list \<times> 'task Shared" where
  "submit_all [] sh = ([], sh)"
| "submit_all ((now, now', t) # ts) sh =
     (case submit now now' t sh of (ok, _, sh1) \<Rightarrow>
        (case submit_all ts sh1 of (oks, sh2) \<Rightarrow> (ok # oks, sh2)))"

text \<open>
  C20. A burst refines one abstract step: whatever its length, every submission of the burst
  is accepted and the queue ends up with the newest \<open>capacity\<close> tasks of the old queue
  followed by the burst, in order.
\<close>

theorem burst_keeps_newest:
  assumes "accepting (state sh)" and "0 < capacity sh" and "length (tasks (state sh)) \<le> capacity sh"
    and "submit_all ts sh = (oks, sh')"
  shows "oks = replicate (length ts) True \<and>
         tasks (state sh') = newest (capacity sh) (tasks (state sh) @ map (\<lambda>x. snd (snd x)) ts)"
  using assms
proof (induction ts arbitrary: sh oks)
  case Nil
  then show ?case by (simp add: newest_all)
next
  case (Cons x ts)
  obtain now now' t where x: "x = (now, now', t)" by (cases x)
  obtain ok warned sh1 where sub: "submit now now' t sh = (ok, warned, sh1)" by (metis prod_cases3)
  obtain oks1 where rest: "submit_all ts sh1 = (oks1, sh')" "oks = ok # oks1"
    using Cons.prems(4) sub x by (auto split: prod.splits)
  have ok: ok and acc: "accepting (state sh1)" and cap: "capacity sh1 = capacity sh"
    using submit_fields [OF sub] Cons.prems(1) by simp_all
  have new: "tasks (state sh1) = newest (capacity sh) (tasks (state sh) @ [t])"
  proof -
    have "tasks (state sh1) = drop (length (evicted sh)) (tasks (state sh)) @ [t]"
      using sub ok by (auto dest: submit_tasks(2))
    also have "\<dots> = newest (capacity sh) (tasks (state sh) @ [t])"
      using Cons.prems(2,3) by (cases "tasks (state sh)") (auto simp: newest_def evicted_def)
    finally show ?thesis .
  qed
  have "oks1 = replicate (length ts) True \<and>
      tasks (state sh') = newest (capacity sh) (tasks (state sh1) @ map (\<lambda>x. snd (snd x)) ts)"
    using Cons.IH [OF acc _ _ rest(1)] Cons.prems(2) cap new by simp
  then show ?case using ok rest x new by (simp add: newest_newest_append [OF Cons.prems(2)])
qed

text \<open>Concrete instances: a queue for two, filled and overfilled.\<close>

definition pair_queue :: "nat Shared" where
  "pair_queue = (shared_new 2 0)\<lparr>state := \<lparr>tasks = [10, 11], accepting = True, draining = True, active = 1\<rparr>\<rparr>"

theorem burst_keeps_newest_witness:
  "fst (submit_all [(1, 1, 12), (2, 2, 13)] pair_queue) = [True, True] \<and>
   tasks (state (snd (submit_all [(1, 1, 12), (2, 2, 13)] pair_queue))) = [12, 13]"
proof -
  obtain oks sh' where run: "submit_all [(1, 1, 12), (2, 2, 13)] pair_queue = (oks, sh')" by fastforce
  have "accepting (state pair_queue)" "0 < capacity pair_queue"
    "length (tasks (state pair_queue)) \<le> capacity pair_queue"
    by (simp_all add: pair_queue_def shared_new_def)
  note burst_keeps_newest [OF this run]
  then show ?thesis using run by (simp add: pair_queue_def shared_new_def newest_def)
qed

end
