(* ===== verification/Client.thy ===== *)
theory Client
  imports Transport Dispatcher
begin

text \<open>
  \<^verbatim>\<open>src/rust/src/client.rs\<close>: the client and its builder, and the delivery of one incident on
  the thread that runs it. The client's record is what the thread sees when the call starts;
  what happens around it while it runs is the \<open>World\<close>: the network, the clock, and the moment
  (if any) at which another thread closes the client and so sets the interrupt flag.
\<close>

record Inner =
  in_service_key :: "rstring option"
  transport :: Transport
  interrupt :: Interrupt
  retry_delays :: "duration list"

record 'task IncidentClient =
  inner :: Inner
  dispatcher :: "'task Shared"
  closed :: bool

record IncidentClientBuilder =
  cb_api_key :: "rstring option"
  cb_service_key :: "rstring option"
  cb_endpoint :: "rstring option"
  cb_retry_delays :: "duration list option"

subsection \<open>The client builder\<close>

definition client_builder :: IncidentClientBuilder where
  "client_builder = \<lparr>cb_api_key = None, cb_service_key = None, cb_endpoint = None, cb_retry_delays = None\<rparr>"

definition with_api_key :: "rstring \<Rightarrow> IncidentClientBuilder \<Rightarrow> IncidentClientBuilder" where
  "with_api_key key b = b\<lparr>cb_api_key := Some key\<rparr>"

definition with_client_service_key :: "rstring \<Rightarrow> IncidentClientBuilder \<Rightarrow> IncidentClientBuilder" where
  "with_client_service_key key b = b\<lparr>cb_service_key := Some key\<rparr>"

definition with_test_endpoint :: "rstring \<Rightarrow> IncidentClientBuilder \<Rightarrow> IncidentClientBuilder" where
  "with_test_endpoint url b = b\<lparr>cb_endpoint := Some url\<rparr>"

definition with_retry_delays :: "duration list \<Rightarrow> IncidentClientBuilder \<Rightarrow> IncidentClientBuilder" where
  "with_retry_delays ds b = b\<lparr>cb_retry_delays := Some ds\<rparr>"

lemmas client_builder_setters [accessors] =
  client_builder_def with_api_key_def with_client_service_key_def with_test_endpoint_def with_retry_delays_def

text \<open>\<^verbatim>\<open>build\<close>, over the environment variable of \<^verbatim>\<open>endpoint()\<close> and the clock.\<close>

definition client_build ::
  "rstring option \<Rightarrow> instant \<Rightarrow> IncidentClientBuilder \<Rightarrow> ('task IncidentClient, 'e IncidentError) result" where
  "client_build env_var now b =
     tryr (case cb_api_key b of
             Some key \<Rightarrow> if \<not> is_blank key then Inr key else Inl (invalid (lit ''apiKey must not be blank''))
           | None \<Rightarrow> Inl (invalid (lit ''apiKey must be set''))) (\<lambda>key.
     let transport = (case cb_endpoint b of
                        Some url \<Rightarrow> with_endpoint key url
                      | None \<Rightarrow> transport_new env_var key)
     in Inr \<lparr>inner = \<lparr>in_service_key = option_filter (\<lambda>k. \<not> is_blank k) (cb_service_key b),
                      transport = transport,
                      interrupt = interrupt_new,
                      retry_delays = unwrap_or (cb_retry_delays b) DEFAULT_RETRY_DELAYS\<rparr>,
             dispatcher = shared_new QUEUE_CAPACITY now,
             closed = False\<rparr>)"

subsection \<open>The world of a delivery\<close>

record 'n World =
  net :: 'n
  clock :: instant
  signal_at :: "instant option" \<comment> \<open>when the interrupt is signalled\<close>
  wake_lag :: duration \<comment> \<open>how late a waiting thread gets the lock back\<close>
  sent :: "(instant \<times> HttpRequest) list" \<comment> \<open>the requests handed to the agent, with the time of each\<close>

text \<open>\<^verbatim>\<open>ureq\<close> with the time an exchange takes, read off the network state it leads to.\<close>

record ('n, 'e) Net =
  exchange :: "('n, 'e) ureq"
  took :: "'n \<Rightarrow> duration"

definition signalled_by :: "instant \<Rightarrow> 'n World \<Rightarrow> bool" where
  "signalled_by t W = (case signal_at W of None \<Rightarrow> False | Some s \<Rightarrow> s \<le> t)"

definition interrupt_in :: "Interrupt \<Rightarrow> 'n World \<Rightarrow> Interrupt" where
  "interrupt_in i W = (if signalled_by (clock W) W then signal i else i)"

text \<open>
  When the waiting thread gets the lock back: after a signal that falls into the wait, and
  after the timeout; each time \<open>wake_lag\<close> late.
\<close>

definition wakeups :: "duration \<Rightarrow> 'n World \<Rightarrow> wakeup list" where
  "wakeups d W =
     (case signal_at W of
        Some s \<Rightarrow> if clock W < s \<and> s \<le> clock W + d then [(s - clock W + wake_lag W, True)] else []
      | None \<Rightarrow> []) @
     [(d + wake_lag W + 1, signalled_by (clock W + d + wake_lag W + 1) W)]"

definition wait_in :: "Interrupt \<Rightarrow> 'n World waiting" where
  "wait_in i d W =
     (case wait (interrupt_in i W) d (wakeups d W) of
        Some (flag, at) \<Rightarrow> (flag, W\<lparr>clock := clock W + at\<rparr>)
      | None \<Rightarrow> (False, W))"

definition send_in ::
  "('v, 'e) serde_json \<Rightarrow> ('n, 'e) Net \<Rightarrow> Transport \<Rightarrow> rstring \<Rightarrow> ('n World, IncidentResponse, 'e) operation" where
  "send_in J N t payload W =
     (case send J (exchange N) t payload (net W) of
        (r, n) \<Rightarrow> (r, W\<lparr>net := n, clock := clock W + took N n, sent := sent W @ [(clock W, http_request t payload)]\<rparr>))"

subsection \<open>Delivery and the synchronous calls\<close>

definition deliver ::
  "('v, 'e) serde_json \<Rightarrow> ('n, 'e) Net \<Rightarrow> Inner \<Rightarrow> IncidentRequest \<Rightarrow> rstring option \<Rightarrow>
     ('n World, IncidentResponse, 'e) operation" where
  "deliver J N inn request default_service_key W =
     (let key = option_or (service_key request) default_service_key;
          payload = serialize_request J request key
      in execute_with_retry (retry_delays inn) (wait_in (interrupt inn)) (send_in J N (transport inn) payload) W)"

definition ensure_open :: "'task IncidentClient \<Rightarrow> (unit, 'e IncidentError) result" where
  "ensure_open c = (if closed c then Inl ClientClosed else Inr ())"

definition require_service_key :: "'task IncidentClient \<Rightarrow> IncidentRequest \<Rightarrow> (unit, 'e IncidentError) result" where
  "require_service_key c request =
     (if in_service_key (inner c) = None \<and> service_key request = None
      then Inl (invalid (lit ''no serviceKey is configured on the client or the request; supply one or use post_with_service_routing''))
      else Inr ())"

definition require_service_routable :: "IncidentRequest \<Rightarrow> (unit, 'e IncidentError) result" where
  "require_service_routable request =
     (if service_key request \<noteq> None
      then Inl (invalid (lit ''request must not carry a serviceKey when service routing is used''))
      else Inr ())"

text \<open>The checks of each call, before anything is sent or queued.\<close>

definition post_checks :: "'task IncidentClient \<Rightarrow> IncidentRequest \<Rightarrow> (unit, 'e IncidentError) result" where
  "post_checks c request = tryr (ensure_open c) (\<lambda>_. require_service_key c request)"

definition routing_checks :: "'task IncidentClient \<Rightarrow> IncidentRequest \<Rightarrow> (unit, 'e IncidentError) result" where
  "routing_checks c request = tryr (ensure_open c) (\<lambda>_. require_service_routable request)"

definition post ::
  "('v, 'e) serde_json \<Rightarrow> ('n, 'e) Net \<Rightarrow> 'task IncidentClient \<Rightarrow> IncidentRequest \<Rightarrow>
     ('n World, IncidentResponse, 'e) operation" where
  "post J N c request W =
     (case post_checks c request of
        Inl e \<Rightarrow> (Inl e, W)
      | Inr _ \<Rightarrow> deliver J N (inner c) request (in_service_key (inner c)) W)"

definition post_with_service_routing ::
  "('v, 'e) serde_json \<Rightarrow> ('n, 'e) Net \<Rightarrow> 'task IncidentClient \<Rightarrow> IncidentRequest \<Rightarrow>
     ('n World, IncidentResponse, 'e) operation" where
  "post_with_service_routing J N c request W =
     (case routing_checks c request of
        Inl e \<Rightarrow> (Inl e, W)
      | Inr _ \<Rightarrow> deliver J N (inner c) request None W)"

subsection \<open>The asynchronous calls\<close>

text \<open>
  A queued task is the closure of \<^verbatim>\<open>submit\<close>: the request and the default service key it
  will be delivered with; running it is a delivery whose result is only logged.
\<close>

record Task =
  t_request :: IncidentRequest
  t_service_key :: "rstring option"

definition run_task ::
  "('v, 'e) serde_json \<Rightarrow> ('n, 'e) Net \<Rightarrow> Inner \<Rightarrow> Task \<Rightarrow> 'n World \<Rightarrow> rstring option \<times> 'n World" where
  "run_task J N inn t W =
     (case deliver J N inn (t_request t) (t_service_key t) W of
        (Inl failure, W') \<Rightarrow>
          (Some (lit ''oppex: asynchronous incident delivery failed: '' @ error_to_string failure), W')
      | (Inr _, W') \<Rightarrow> (None, W'))"

definition client_submit ::
  "instant \<Rightarrow> instant \<Rightarrow> IncidentRequest \<Rightarrow> rstring option \<Rightarrow> Task IncidentClient \<Rightarrow>
     (unit, 'e IncidentError) result \<times> Task IncidentClient" where
  "client_submit now now' request key c =
     (case submit now now' \<lparr>t_request = request, t_service_key = key\<rparr> (dispatcher c) of
        (accepted, _, sh) \<Rightarrow>
          (if accepted then Inr () else Inl ClientClosed, c\<lparr>dispatcher := sh\<rparr>))"

definition post_async ::
  "instant \<Rightarrow> instant \<Rightarrow> IncidentRequest \<Rightarrow> Task IncidentClient \<Rightarrow>
     (unit, 'e IncidentError) result \<times> Task IncidentClient" where
  "post_async now now' request c =
     (case post_checks c request of
        Inl e \<Rightarrow> (Inl e, c)
      | Inr _ \<Rightarrow> client_submit now now' request (in_service_key (inner c)) c)"

definition post_async_with_service_routing ::
  "instant \<Rightarrow> instant \<Rightarrow> IncidentRequest \<Rightarrow> Task IncidentClient \<Rightarrow>
     (unit, 'e IncidentError) result \<times> Task IncidentClient" where
  "post_async_with_service_routing now now' request c =
     (case routing_checks c request of
        Inl e \<Rightarrow> (Inl e, c)
      | Inr _ \<Rightarrow> client_submit now now' request None c)"

subsection \<open>Closing\<close>

text \<open>The two accesses of \<^verbatim>\<open>close\<close> before it reaches the dispatcher.\<close>

definition close_swap :: "'task IncidentClient \<Rightarrow> bool \<times> 'task IncidentClient" where
  "close_swap c = (closed c, c\<lparr>closed := True\<rparr>)"

definition close_signal :: "Inner \<Rightarrow> Inner" where
  "close_signal inn = inn\<lparr>interrupt := signal (interrupt inn)\<rparr>"

text \<open>
  \<^verbatim>\<open>close\<close>, and \<^verbatim>\<open>drop\<close>, which calls it, over the turns of its drain: \<open>None\<close> while it has not
  returned. \<^verbatim>\<open>Client_Threads\<close> has it step by step among the other threads.
\<close>

definition client_close ::
  "instant \<Rightarrow> 'task turn list \<Rightarrow> 'task IncidentClient \<Rightarrow> 'task IncidentClient option" where
  "client_close now turns c =
     (case close_swap c of (was_closed, c') \<Rightarrow>
        if was_closed then Some c'
        else map_option (\<lambda>(_, sh). c'\<lparr>inner := close_signal (inner c'), dispatcher := sh\<rparr>)
               (dispatcher_close now turns CLOSE_DRAIN_TIMEOUT (dispatcher c')))"

definition client_drop ::
  "instant \<Rightarrow> 'task turn list \<Rightarrow> 'task IncidentClient \<Rightarrow> 'task IncidentClient option" where
  "client_drop now turns c = client_close now turns c"

text \<open>Dropping a client that was closed explicitly returns at once and changes nothing.\<close>

lemma drop_after_close:
  assumes "client_close now turns c = Some c'"
  shows "client_drop now' turns' c' = Some c'"
proof -
  have "closed c'" using assms by (auto simp: client_close_def close_swap_def split: if_splits)
  then show ?thesis by (cases c') (simp add: client_drop_def client_close_def close_swap_def)
qed

text \<open>
  A client that no other thread touches: its drain ends at the first turn, or waits in vain
  until the first turn past the deadline.
\<close>

definition close_alone :: "instant \<Rightarrow> 'task IncidentClient \<Rightarrow> 'task IncidentClient" where
  "close_alone now c =
     (case client_close now [(now, id), (now + CLOSE_DRAIN_TIMEOUT + 1, id)] c of Some c' \<Rightarrow> c' | None \<Rightarrow> c)"

lemma client_close_returns:
  assumes "(later, others) \<in> set turns" and "now + CLOSE_DRAIN_TIMEOUT < later"
  shows "\<exists>c'. client_close now turns c = Some c' \<and> closed c'"
proof -
  have "\<exists>r. dispatcher_close now turns CLOSE_DRAIN_TIMEOUT sh = Some r" for sh :: "'a Shared"
    using drain_until_returns [OF assms] by (auto simp: dispatcher_close_def split: option.split)
  then show ?thesis by (fastforce simp: client_close_def close_swap_def)
qed

lemma close_alone_returns:
  "client_close now [(now, id), (now + CLOSE_DRAIN_TIMEOUT + 1, id)] c = Some (close_alone now c)"
  "closed (close_alone now c)"
  using client_close_returns [of "now + CLOSE_DRAIN_TIMEOUT + 1" id "[(now, id), (now + CLOSE_DRAIN_TIMEOUT + 1, id)]" now c]
  by (auto simp: close_alone_def)

end
