(* ===== verification/Client_Properties.thy ===== *)
theory Client_Properties
  imports Client
begin

text \<open>
  What a call of the client does to the outside world: which requests leave the process, how
  often, how long that takes, and what a close on another thread changes.
\<close>

subsection \<open>The interruptible wait, on the time line\<close>

lemma interrupt_in_signalled [simp]: "signalled (interrupt_in i W) \<longleftrightarrow> signalled i \<or> signalled_by (clock W) W"
  by (simp add: interrupt_in_def signal_def)

lemma wait_in_cases:
  "wait_in i d W =
     (if signalled i \<or> signalled_by (clock W) W then (True, W)
      else case signal_at W of
        Some s \<Rightarrow>
          if s \<le> clock W + d then (True, W\<lparr>clock := s + wake_lag W\<rparr>)
          else (s \<le> clock W + d + wake_lag W + 1, W\<lparr>clock := clock W + d + wake_lag W + 1\<rparr>)
      | None \<Rightarrow> (False, W\<lparr>clock := clock W + d + wake_lag W + 1\<rparr>))"
  by (auto simp: wait_in_def wait_def wakeups_def signalled_by_def split: option.splits)

lemma wait_in_keeps [simp]:
  "net (snd (wait_in i d W)) = net W" "sent (snd (wait_in i d W)) = sent W"
  "signal_at (snd (wait_in i d W)) = signal_at W" "wake_lag (snd (wait_in i d W)) = wake_lag W"
  by (simp_all add: wait_in_cases split: option.splits)

lemma wait_in_time: "clock (snd (wait_in i d W)) \<le> clock W + d + (wake_lag W + 1)"
  by (auto simp: wait_in_cases split: option.splits)

lemma wait_in_flag: "wait_in i d W = (b, W') \<Longrightarrow> b \<longleftrightarrow> signalled i \<or> signalled_by (clock W') W"
  by (auto simp: wait_in_cases signalled_by_def split: option.splits if_splits)

lemma send_in_keeps [simp]:
  "sent (snd (send_in J N t payload W)) = sent W @ [(clock W, http_request t payload)]"
  "signal_at (snd (send_in J N t payload W)) = signal_at W"
  "wake_lag (snd (send_in J N t payload W)) = wake_lag W"
  by (simp_all add: send_in_def split: prod.splits)

subsection \<open>The laws of the retry loop, for a delivery\<close>

interpretation delivery_sends:
  attempt_sends "send_in J N t payload" "wait_in i" "\<lambda>W. map snd (sent W)" "http_request t payload"
  for J :: "('v, 'e) serde_json" and N :: "('n, 'e) Net" and t :: Transport and payload :: rstring and i :: Interrupt
  by unfold_locales simp_all

text \<open>
  The time law needs the promise of \<^verbatim>\<open>timeout_global\<close>: an exchange of the agent ends within
  the configured budget.
\<close>

locale bounded_exchanges =
  fixes J :: "('v, 'e) serde_json" and N :: "('n, 'e) Net" and t :: Transport and budget :: duration
  assumes exchange_bound: "took N (snd (exchange N (agent t) q n)) \<le> budget"
begin

lemma send_in_time: "clock (snd (send_in J N t payload W)) \<le> clock W + budget"
  using exchange_bound [of "http_request t payload" "net W"]
  by (auto simp: send_in_def send_def split: prod.splits sum.splits)

end

sublocale bounded_exchanges \<subseteq> timed: timed_attempts "send_in J N t payload" "wait_in i"
    "\<lambda>W. map snd (sent W)" "http_request t payload" clock budget "\<lambda>W. wake_lag W + 1"
  for payload :: rstring and i :: Interrupt
  using send_in_time wait_in_time by unfold_locales (simp_all add: add.assoc)

context bounded_exchanges
begin

lemma deliver_time:
  assumes "execute_with_retry ds (wait_in i) (send_in J N t payload) W = (r, W')"
  shows "clock W' \<le> clock W + (length ds + 1) * budget + sum_list ds + length ds * (wake_lag W + 1)"
  using timed.execute_with_retry_time [OF assms] .

text \<open>A signal cuts the loop short: after it, at most the attempt in flight is waited for.\<close>

lemma retry_ends_after_signal:
  assumes "retry_loop ds (wait_in i) (send_in J N t payload) k W = (r, W')" and "signal_at W = Some s"
  shows "clock W' \<le> max (clock W) s + budget + wake_lag W"
  using assms
proof (induction k W rule: retry_induct [where operation = "send_in J N t payload" and ds = ds and wt = "wait_in i"])
  case (Ok k W v W1)
  then show ?case using send_in_time [of payload W] by (simp add: retry_loop_Ok)
next
  case (Final k W f W1)
  then show ?case using send_in_time [of payload W] by (simp add: retry_loop_final)
next
  case (Interrupted k W f W1 W2)
  then have "clock W1 \<le> clock W + budget" and "signal_at W1 = Some s" and "wake_lag W1 = wake_lag W"
    using send_in_time [of payload W] send_in_keeps [of J N t payload W] by simp_all
  with Interrupted show ?case
    by (auto simp: retry_loop_interrupted wait_in_cases signalled_by_def split: if_splits)
next
  case (Again k W f W1 W2)
  have W1: "signal_at W1 = signal_at W" "wake_lag W1 = wake_lag W"
    using send_in_keeps [of J N t payload W] Again.hyps(1) by simp_all
  have W2: "signal_at W2 = signal_at W1" "wake_lag W2 = wake_lag W1" and "\<not> signalled_by (clock W2) W1"
    using wait_in_keeps [of i "ds ! k" W1] wait_in_flag [OF Again.hyps(4)] Again.hyps(4) by simp_all
  then have "clock W2 < s" using Again.prems(2) W1 by (simp add: signalled_by_def)
  moreover have "clock W' \<le> max (clock W2) s + budget + wake_lag W2"
    using Again.IH Again.prems Again.hyps W1 W2 by (simp add: retry_loop_again)
  ultimately show ?case using W1 W2 by simp
qed

end

text \<open>
  An agent that enforces its budget, whatever the network behind it does: an exchange takes
  the time the network asks for, cut off at the budget.
\<close>

definition budgeted :: "('n, 'e) ureq \<Rightarrow> ('n \<Rightarrow> duration) \<Rightarrow> duration \<Rightarrow> ('n, 'e) Net" where
  "budgeted ureq latency budget = \<lparr>exchange = ureq, took = (\<lambda>n. min (latency n) budget)\<rparr>"

interpretation budgeted: bounded_exchanges J "budgeted ureq latency budget" t budget
  for J :: "('v, 'e) serde_json" and ureq :: "('n, 'e) ureq" and latency t budget
  by unfold_locales (simp add: budgeted_def)

lemma deliver_sends:
  assumes "deliver J N inn request key W = (r, W')"
  shows "\<exists>n. 1 \<le> n \<and> n \<le> length (retry_delays inn) + 1 \<and>
    map snd (sent W') = map snd (sent W) @
      replicate n (http_request (transport inn) (serialize_request J request (option_or (service_key request) key)))"
  using assms delivery_sends.execute_with_retry_sends unfolding deliver_def Let_def by blast

subsection \<open>Posting\<close>

text \<open>
  A synchronous post sends what it promises or nothing: if the client is closed or no
  service key is available it returns that error and the world is untouched; otherwise it
  hands the agent between one and (with the default schedule) six copies of one request, to
  the transport's endpoint with the API key in \<^verbatim>\<open>X-API-KEY\<close> and, as body, the payload for the
  request's own service key or else the client's.
\<close>

lemma post_effect:
  assumes "post J N c request W = (r, W')"
  shows "case post_checks c request of
      Inl e \<Rightarrow> r = Inl e \<and> W' = W
    | Inr _ \<Rightarrow> \<exists>n. 1 \<le> n \<and> n \<le> length (retry_delays (inner c)) + 1 \<and>
        map snd (sent W') = map snd (sent W) @
          replicate n (http_request (transport (inner c))
            (serialize_request J request (option_or (service_key request) (in_service_key (inner c)))))"
  using assms deliver_sends by (fastforce simp: post_def split: sum.splits)

text \<open>
  C19. A post that succeeds was acknowledged: if it returns a response, the last exchange it
  made was answered with a 2xx status, and the response is what that answer's body parses to.
\<close>

theorem post_success_was_acknowledged:
  assumes "post J N c request W = (Inr response, W')"
  shows "\<exists>q n answer body. exchange N (agent (transport (inner c))) q n = (Inr answer, net W') \<and>
    snd (last (sent W')) = q \<and> 200 \<le> uint (hr_status answer) \<and> uint (hr_status answer) < 300 \<and>
    hr_read_to_string answer MAX_RESPONSE_BYTES = Inr body \<and>
    parse_response J (uint (hr_status answer)) body = Inr response"
proof -
  obtain payload W0 where "send_in J N (transport (inner c)) payload W0 = (Inr response, W')"
    using assms
    by (auto simp: post_def deliver_def execute_with_retry_def Let_def
        split: sum.splits dest!: retry_loop_success_attempt)
  then show ?thesis
    by (auto simp: send_in_def send_def receive_def Let_def tryr_eq_Inr
        split: prod.splits sum.splits if_splits) blast
qed

text \<open>
  C23. A service-routed post never sends a service key: it refuses a request that carries one,
  and otherwise every request it sends has a body that reads as an object with the agreed
  members and without the member \<^verbatim>\<open>serviceKey\<close>.
\<close>

theorem service_routing_omits_key:
  fixes J :: "('v, 'e) serde_json"
  assumes "json_quoting (quote J)" and "post_with_service_routing J N c request W = (r, W')"
  shows "(service_key request \<noteq> None \<longrightarrow> W' = W \<and> (\<exists>e. r = Inl e)) \<and>
    (\<forall>q \<in> set (drop (length (sent W)) (map snd (sent W'))).
       \<exists>ms. read_object (hq_body q) = Some ms \<and> ms = wire_members request None \<and>
            map_of ms (lit ''serviceKey'') = None)"
proof (cases "routing_checks c request :: (unit, 'e IncidentError) result")
  case (Inl e)
  with assms(2) show ?thesis by (auto simp: post_with_service_routing_def)
next
  case (Inr u)
  then have none: "service_key request = None"
    by (auto simp: routing_checks_def require_service_routable_def tryr_eq_Inr split: if_splits)
  have "deliver J N (inner c) request None W = (r, W')"
    using assms(2) Inr by (simp add: post_with_service_routing_def)
  from deliver_sends [OF this] none obtain n where
    "map snd (sent W') = map snd (sent W) @
       replicate n (http_request (transport (inner c)) (serialize_request J request None))"
    by auto
  moreover have "read_object (serialize_request J request None) = Some (wire_members request None)"
    by (rule payload_members [OF assms(1)])
  ultimately show ?thesis using none by (auto simp: http_request_def wire_member_lookup)
qed

text \<open>
  C29. A post ends in bounded time: if every exchange respects the configured attempt budget of
  eight seconds, a post with the default schedule is over after at most six budgets, the 15.5
  seconds of delays and the wake-up lag of five waits.
\<close>

theorem post_time_bound:
  fixes J :: "('v, 'e) serde_json"
  assumes "\<And>q n. took N (snd (exchange N (agent (transport (inner c))) q n)) \<le> ATTEMPT_TIMEOUT"
    and "retry_delays (inner c) = DEFAULT_RETRY_DELAYS"
    and "post J N c request W = (r, W')"
  shows "clock W' \<le> clock W + 6 * from_secs 8 + from_millis 15500 + 5 * (wake_lag W + 1)"
proof -
  have "bounded_exchanges N (transport (inner c)) ATTEMPT_TIMEOUT"
    by (rule bounded_exchanges.intro [OF assms(1)])
  note bound = bounded_exchanges.deliver_time [OF this]
  have sum: "sum_list DEFAULT_RETRY_DELAYS = from_millis 15500" and len: "length DEFAULT_RETRY_DELAYS = 5"
    by (simp_all add: DEFAULT_RETRY_DELAYS_def from_millis_def)
  show ?thesis
  proof (cases "post_checks c request :: (unit, 'e IncidentError) result")
    case (Inl e)
    with assms(3) show ?thesis by (simp add: post_def)
  next
    case (Inr u)
    then obtain payload where
      "execute_with_retry DEFAULT_RETRY_DELAYS (wait_in (interrupt (inner c))) (send_in J N (transport (inner c)) payload) W = (r, W')"
      using assms(2,3) by (auto simp: post_def deliver_def Let_def)
    from bound [OF this] show ?thesis by (simp add: sum len ATTEMPT_TIMEOUT_def)
  qed
qed

subsection \<open>Closing during a delivery\<close>

lemma retry_stops_at_signal:
  assumes "retry_loop ds (wait_in i) (send_in J N t payload) k W = (r, W')" and "signal_at W = Some s"
  shows "\<exists>new. sent W' = sent W @ (clock W, http_request t payload) # new \<and> (\<forall>(at, q)\<in>set new. at < s)"
  using assms
proof (induction k W rule: retry_induct [where operation = "send_in J N t payload" and ds = ds and wt = "wait_in i"])
  case (Ok k W v W1)
  then show ?case using send_in_keeps(1) [of J N t payload W] by (simp add: retry_loop_Ok)
next
  case (Final k W f W1)
  then show ?case using send_in_keeps(1) [of J N t payload W] by (simp add: retry_loop_final)
next
  case (Interrupted k W f W1 W2)
  then show ?case
    using send_in_keeps(1) [of J N t payload W] wait_in_keeps(2) [of i "ds ! k" W1]
    by (simp add: retry_loop_interrupted)
next
  case (Again k W f W1 W2)
  have W1: "sent W1 = sent W @ [(clock W, http_request t payload)]" "signal_at W1 = signal_at W"
    using send_in_keeps [of J N t payload W] Again.hyps(1) by simp_all
  have W2: "sent W2 = sent W1" "signal_at W2 = signal_at W1" and "\<not> signalled_by (clock W2) W1"
    using wait_in_keeps [of i "ds ! k" W1] wait_in_flag [OF Again.hyps(4)] Again.hyps(4) by simp_all
  then have "clock W2 < s" using Again.prems(2) W1 by (simp add: signalled_by_def)
  moreover obtain new where "sent W' = sent W2 @ (clock W2, http_request t payload) # new"
    and "\<forall>(at, q)\<in>set new. at < s"
    using Again.IH Again.prems Again.hyps W1 W2 by (auto simp: retry_loop_again)
  ultimately show ?case
    using W1 W2 by (intro exI [of _ "(clock W2, http_request t payload) # new"]) simp
qed

text \<open>
  Closing the client ends its retries: whatever the schedule and the failures, once some
  thread has signalled the interrupt no delivery makes another attempt. Of the requests a
  delivery sends, all but the first go out strictly before the signal.
\<close>

lemma no_retry_after_close:
  assumes "deliver J N inn request key W = (r, W')" and "signal_at W = Some s"
  shows "\<exists>first new. sent W' = sent W @ first # new \<and> (\<forall>(at, q)\<in>set new. at < s)"
  using assms retry_stops_at_signal unfolding deliver_def execute_with_retry_def Let_def by blast

text \<open>
  C15. The drain timeout covers a delivery in flight: if every exchange respects the attempt
  budget, a delivery that is under way when the interrupt is signalled is over within eight
  seconds and one wake-up lag, even if it was in the middle of its longest backoff; with less
  than two seconds of lag it ends before the ten seconds of \<^verbatim>\<open>CLOSE_DRAIN_TIMEOUT\<close> are up.
\<close>

theorem close_outlasts_delivery_in_flight:
  assumes "\<And>q n. took N (snd (exchange N (agent (transport inn)) q n)) \<le> ATTEMPT_TIMEOUT"
    and "deliver J N inn request key W = (r, W')" and "signal_at W = Some s" and "clock W \<le> s"
  shows "clock W' \<le> s + from_secs 8 + wake_lag W \<and>
    (wake_lag W < from_secs 2 \<longrightarrow> clock W' < s + CLOSE_DRAIN_TIMEOUT)"
proof -
  have "bounded_exchanges N (transport inn) ATTEMPT_TIMEOUT"
    by (rule bounded_exchanges.intro [OF assms(1)])
  from bounded_exchanges.retry_ends_after_signal [OF this] assms(2,3,4)
  have "clock W' \<le> s + ATTEMPT_TIMEOUT + wake_lag W"
    unfolding deliver_def execute_with_retry_def Let_def by (metis max.absorb2)
  then show ?thesis by (auto simp: ATTEMPT_TIMEOUT_def CLOSE_DRAIN_TIMEOUT_def from_secs_def)
qed

subsection \<open>A network that refuses\<close>

definition refuses :: "('n, 'e) Net \<Rightarrow> rstring \<Rightarrow> bool" where
  "refuses N url \<longleftrightarrow> (\<forall>config q n. hq_url q = url \<longrightarrow> (\<exists>cause n'. exchange N config q n = (Inl cause, n')))"

definition refused_error :: "'e \<Rightarrow> 'e IncidentError" where
  "refused_error cause =
     Delivery (lit ''incident delivery failed before a response was received'') NO_STATUS_CODE True (Some cause)"

lemma send_in_refused:
  assumes "refuses N (endpoint_url t)"
  shows "\<exists>cause W'. send_in J N t payload W = (Inl (refused_error cause), W')"
proof -
  have "hq_url (http_request t payload) = endpoint_url t" by (simp add: http_request_def)
  with assms obtain cause n' where "exchange N (agent t) (http_request t payload) (net W) = (Inl cause, n')"
    unfolding refuses_def by blast
  then show ?thesis by (simp add: send_in_def send_def refused_error_def delivery_caused_by_def)
qed

lemma wait_in_undisturbed:
  "\<not> signalled i \<Longrightarrow> signal_at W = None \<Longrightarrow> \<exists>W'. wait_in i d W = (False, W') \<and> sent W' = sent W \<and> signal_at W' = None"
  by (simp add: wait_in_cases signalled_by_def)

text \<open>A delivery to an endpoint that refuses makes every attempt and reports how many.\<close>

lemma deliver_refused:
  fixes N :: "('n, 'e) Net"
  assumes "deliver J N inn request key W = (r, W')" and "refuses N (endpoint_url (transport inn))"
    and "\<not> signalled (interrupt inn)" and "signal_at W = None"
  shows "\<exists>cause. r = Inl (with_attempt_count (refused_error cause) (length (retry_delays inn) + 1)) \<and>
    signal_at W' = None \<and>
    map snd (sent W') = map snd (sent W) @ replicate (length (retry_delays inn) + 1)
      (http_request (transport inn) (serialize_request J request (option_or (service_key request) key)))"
proof -
  let ?p = "serialize_request J request (option_or (service_key request) key)"
  let ?q = "http_request (transport inn) ?p"
  define sofar where "sofar k V \<longleftrightarrow> signal_at V = None \<and> map snd (sent V) = map snd (sent W) @ replicate k ?q" for k and V :: "'n World"
  have attempt: "\<exists>f V'. send_in J N (transport inn) ?p V = (Inl f, V') \<and> is_retryable f \<and>
      (\<exists>cause. f = refused_error cause) \<and> sofar (Suc k) V'" if V: "sofar k V" for k V
  proof -
    obtain cause V' where s: "send_in J N (transport inn) ?p V = (Inl (refused_error cause), V')"
      using send_in_refused [OF assms(2)] by blast
    with send_in_keeps [of J N "transport inn" ?p V] V have "sofar (Suc k) V'"
      by (simp add: sofar_def replicate_append_same [symmetric])
    with s show ?thesis by (auto simp: refused_error_def)
  qed
  have backoff: "\<exists>V'. wait_in (interrupt inn) (retry_delays inn ! k) V = (False, V') \<and> sofar (Suc k) V'"
    if "sofar (Suc k) V" and "k < length (retry_delays inn)" for k V
    using wait_in_undisturbed [OF assms(3), of V "retry_delays inn ! k"] that by (auto simp: sofar_def)
  have start: "sofar 0 W" by (simp add: sofar_def assms(4))
  have "retry_loop (retry_delays inn) (wait_in (interrupt inn)) (send_in J N (transport inn) ?p) 0 W = (r, W')"
    using assms(1) by (simp add: deliver_def execute_with_retry_def Let_def)
  from retry_loop_exhausts [where before = sofar and after = "\<lambda>k. sofar (Suc k)", OF this le0 start attempt backoff]
  show ?thesis by (auto simp: sofar_def)
qed

subsection \<open>Building a client\<close>

text \<open>
  C35. A client is built exactly from a non-blank API key: it then starts open and not
  interrupted, with an empty queue for 5000 tasks, with the time budgets of the agent, with the
  environment's endpoint and the default schedule unless a test seam replaces them, and with
  exactly the configured service key, or none if that is blank; a missing and a blank API key
  are each an \<^verbatim>\<open>InvalidRequest\<close> with its own message.
\<close>

theorem client_build_correct:
  fixes result :: "('task IncidentClient, 'e IncidentError) result"
  assumes "client_build env_var now b = result"
  shows "case result of
      Inl e \<Rightarrow> is_invalid_request e \<and> (\<forall>key. cb_api_key b = Some key \<longrightarrow> is_blank key) \<and>
        e = InvalidRequest (if cb_api_key b = None then lit ''apiKey must be set'' else lit ''apiKey must not be blank'')
    | Inr c \<Rightarrow>
        (\<exists>key. cb_api_key b = Some key \<and> \<not> is_blank key \<and> api_key (transport (inner c)) = key) \<and>
        endpoint_url (transport (inner c)) = unwrap_or (cb_endpoint b) (endpoint env_var) \<and>
        timeout_global (agent (transport (inner c))) = Some (from_secs 8) \<and>
        timeout_connect (agent (transport (inner c))) = Some (from_secs 3) \<and>
        timeout_recv_response (agent (transport (inner c))) = Some (from_secs 5) \<and>
        \<not> http_status_as_error (agent (transport (inner c))) \<and>
        retry_delays (inner c) = unwrap_or (cb_retry_delays b) DEFAULT_RETRY_DELAYS \<and>
        in_service_key (inner c) =
          (case cb_service_key b of Some k \<Rightarrow> if is_blank k then None else Some k | None \<Rightarrow> None) \<and>
        \<not> closed c \<and> \<not> signalled (interrupt (inner c)) \<and>
        tasks (state (dispatcher c)) = [] \<and> accepting (state (dispatcher c)) \<and> capacity (dispatcher c) = 5000"
  using assms
  by (cases "cb_api_key b"; cases "cb_service_key b"; cases "cb_endpoint b")
    (auto simp: client_build_def invalid_def transport_new_def with_endpoint_def shared_new_def
      ATTEMPT_TIMEOUT_def CONNECT_TIMEOUT_def SOCKET_TIMEOUT_def QUEUE_CAPACITY_def interrupt_new_def)

subsection \<open>Queueing\<close>

text \<open>
  An asynchronous post reports misuse on the calling thread and queues nothing then;
  otherwise its result tells whether the dispatcher took the task, which then is the newest
  in the queue and carries the request with the client's service key.
\<close>

lemma post_async_effect:
  fixes r :: "(unit, 'e IncidentError) result"
  assumes "post_async now now' request c = (r, c')"
  shows "case (post_checks c request :: (unit, 'e IncidentError) result) of
      Inl e \<Rightarrow> r = Inl e \<and> c' = c
    | Inr _ \<Rightarrow>
        if accepting (state (dispatcher c))
        then r = Inr () \<and> closed c' = closed c \<and> inner c' = inner c \<and>
             (\<exists>older. tasks (state (dispatcher c')) =
                older @ [\<lparr>t_request = request, t_service_key = in_service_key (inner c)\<rparr>])
        else r = Inl ClientClosed \<and> c' = c"
proof (cases "post_checks c request :: (unit, 'e IncidentError) result")
  case (Inl e)
  with assms have "r = Inl e \<and> c' = c" by (auto simp: post_async_def)
  then show ?thesis unfolding Inl by simp
next
  case (Inr u)
  let ?t = "\<lparr>t_request = request, t_service_key = in_service_key (inner c)\<rparr>"
  obtain ok warned sh where sub: "submit now now' ?t (dispatcher c) = (ok, warned, sh)"
    by (metis prod_cases3)
  have ok: "ok = accepting (state (dispatcher c))" by (rule submit_fields(1) [OF sub])
  have rc: "r = (if ok then Inr () else Inl ClientClosed)" "c' = c\<lparr>dispatcher := sh\<rparr>"
    using assms Inr sub by (simp_all add: post_async_def client_submit_def)
  show ?thesis
  proof (cases ok)
    case True
    with sub have "tasks (state sh) = drop (length (evicted (dispatcher c))) (tasks (state (dispatcher c))) @ [?t]"
      by (auto dest: submit_tasks(2))
    with True ok rc Inr show ?thesis by auto
  next
    case False
    with ok sub have "sh = dispatcher c" by (simp add: submit_refused)
    with False ok rc Inr show ?thesis by simp
  qed
qed

text \<open>
  A closed client refuses every post: all four calls return \<^verbatim>\<open>ClientClosed\<close>, send nothing
  and queue nothing, whatever the request.
\<close>

lemma closed_client_refuses_every_post:
  assumes "closed c"
  shows "post J N c request W = (Inl ClientClosed, W) \<and>
    post_with_service_routing J N c request W = (Inl ClientClosed, W) \<and>
    post_async now now' request c = (Inl ClientClosed :: (unit, 'e IncidentError) result, c) \<and>
    post_async_with_service_routing now now' request c = (Inl ClientClosed :: (unit, 'e IncidentError) result, c)"
  using assms
  by (simp add: post_def post_with_service_routing_def post_async_def
      post_async_with_service_routing_def post_checks_def routing_checks_def ensure_open_def)

subsection \<open>What reaches the API\<close>

text \<open>
  An HTTP request carries an incident: it goes to the transport's endpoint, authenticated
  with its API key, and its body reads as the JSON object the API expects of this incident
  and service key.
\<close>

definition carries :: "Transport \<Rightarrow> IncidentRequest \<Rightarrow> rstring option \<Rightarrow> HttpRequest \<Rightarrow> bool" where
  "carries t r key q \<longleftrightarrow>
     hq_url q = endpoint_url t \<and> map_of (hq_headers q) (lit ''X-API-KEY'') = Some (api_key t) \<and>
     map_of (hq_headers q) (lit ''Content-Type'') = Some (lit ''application/json'') \<and>
     read_object (hq_body q) = Some (wire_members r key)"

lemma http_request_carries:
  "json_quoting (quote J) \<Longrightarrow> carries t r key (http_request t (serialize_request J r key))"
  by (simp add: carries_def http_request_def payload_members literals)

text \<open>The requests a call adds to what was already sent.\<close>

definition newly_sent :: "'n World \<Rightarrow> 'n World \<Rightarrow> HttpRequest list" where
  "newly_sent W W' = drop (length (sent W)) (map snd (sent W'))"

lemma deliver_carries:
  assumes "json_quoting (quote J)" and "deliver J N inn request key W = (r, W')"
  shows "1 \<le> length (newly_sent W W') \<and> length (newly_sent W W') \<le> length (retry_delays inn) + 1 \<and>
    list_all (carries (transport inn) request (option_or (service_key request) key)) (newly_sent W W')"
proof -
  obtain n where "1 \<le> n" "n \<le> length (retry_delays inn) + 1"
    "map snd (sent W') = map snd (sent W) @
       replicate n (http_request (transport inn) (serialize_request J request (option_or (service_key request) key)))"
    using deliver_sends [OF assms(2)] by blast
  then show ?thesis
    by (simp add: newly_sent_def list_all_iff http_request_carries [OF assms(1)])
qed

text \<open>
  A server that acknowledges: it answers every request in 2xx with a body that is read and
  understood.
\<close>

definition acknowledges :: "('v, 'e) serde_json \<Rightarrow> ('n, 'e) ureq \<Rightarrow> bool" where
  "acknowledges J U \<longleftrightarrow> (\<forall>config q n. \<exists>answer n' body response.
     U config q n = (Inr answer, n') \<and> hr_read_to_string answer MAX_RESPONSE_BYTES = Inr body \<and>
     200 \<le> uint (hr_status answer) \<and> uint (hr_status answer) < 300 \<and>
     parse_response J (uint (hr_status answer)) body = Inr response)"

lemma send_acknowledged:
  assumes "acknowledges J U"
  shows "\<exists>response n'. send J U t payload n = (Inr response, n')"
proof -
  obtain answer n' body response where
    "U (agent t) (http_request t payload) n = (Inr answer, n')"
    "hr_read_to_string answer MAX_RESPONSE_BYTES = Inr body"
    "200 \<le> uint (hr_status answer)" "uint (hr_status answer) < 300"
    "parse_response J (uint (hr_status answer)) body = Inr response"
    using assms unfolding acknowledges_def by meson
  then show ?thesis by (simp add: send_def receive_readable)
qed

subsection \<open>Concrete calls\<close>

definition sample_client :: "Task IncidentClient" where
  "sample_client =
     \<lparr>inner = \<lparr>in_service_key = Some (lit ''svc''), transport = sample_transport, interrupt = interrupt_new,
               retry_delays = DEFAULT_RETRY_DELAYS\<rparr>,
      dispatcher = shared_new QUEUE_CAPACITY 0, closed = False\<rparr>"

lemma sample_client_fields [simp]:
  "in_service_key (inner sample_client) = Some (lit ''svc'')" "transport (inner sample_client) = sample_transport"
  "interrupt (inner sample_client) = interrupt_new" "retry_delays (inner sample_client) = DEFAULT_RETRY_DELAYS"
  "dispatcher sample_client = shared_new QUEUE_CAPACITY 0" "\<not> closed sample_client"
  by (simp_all add: sample_client_def)

definition sample_world :: "instant option \<Rightarrow> nat World" where
  "sample_world s = \<lparr>net = 0, clock = 0, signal_at = s, wake_lag = 1, sent = []\<rparr>"

text \<open>A server that answers every request with the given status and an empty body.\<close>

definition sample_net :: "u16 \<Rightarrow> (nat, unit) Net" where
  "sample_net status = budgeted (fixed_agent status (Inr [])) (\<lambda>_. 100) ATTEMPT_TIMEOUT"

lemmas sample_call_defs = sample_world_def sample_net_def budgeted_def ATTEMPT_TIMEOUT_def
  from_secs_def interrupt_new_def

lemma sample_client_built:
  "client_build None 0 (with_client_service_key (lit ''svc'') (with_api_key (lit ''api-key'') client_builder)) =
     Inr sample_client"
  by (simp add: client_build_def accessors literals is_whitespace_def sample_client_def sample_transport_def)

lemma sample_receive_202:
  "receive rfc_serde \<lparr>hr_status = 202, hr_read_to_string = (\<lambda>limit. Inr [])\<rparr> = Inr (response_new True 202 None None)"
  by (simp add: receive_def parse_response_blank)

lemma sample_deliver_202:
  "deliver rfc_serde (sample_net 202) (inner sample_client) request key (sample_world s) =
     (Inr (response_new True 202 None None),
      \<lparr>net = 1, clock = 100, signal_at = s, wake_lag = 1,
       sent = [(0, http_request sample_transport (serialize_request rfc_serde request (option_or (service_key request) key)))]\<rparr>)"
  unfolding deliver_def execute_with_retry_def Let_def
  by (rule retry_loop_Ok) (simp add: send_in_def sample_call_defs fixed_agent_send sample_receive_202)

lemma sample_request_key [simp]: "service_key sample_request = None"
  by (simp add: sample_defs accessors)

lemma sample_post_checks [simp]:
  "post_checks sample_client request = Inr ()" "routing_checks sample_client sample_request = Inr ()"
  by (simp_all add: post_checks_def routing_checks_def ensure_open_def require_service_key_def
      require_service_routable_def)

lemma sample_post_202:
  "post rfc_serde (sample_net 202) sample_client sample_request (sample_world None) =
     (Inr (response_new True 202 None None),
      \<lparr>net = 1, clock = 100, signal_at = None, wake_lag = 1,
       sent = [(0, http_request sample_transport (serialize_request rfc_serde sample_request (Some (lit ''svc''))))]\<rparr>)"
  by (simp add: post_def sample_deliver_202)

lemma sample_routed_202:
  "post_with_service_routing rfc_serde (sample_net 202) sample_client sample_request (sample_world None) =
     (Inr (response_new True 202 None None),
      \<lparr>net = 1, clock = 100, signal_at = None, wake_lag = 1,
       sent = [(0, http_request sample_transport (serialize_request rfc_serde sample_request None))]\<rparr>)"
  by (simp add: post_with_service_routing_def sample_deliver_202)

lemma sample_world_sent [simp]: "sent (sample_world s) = []"
  by (simp add: sample_world_def)

lemma sample_net_acknowledges: "acknowledges rfc_serde (exchange (sample_net 202))"
  by (simp add: acknowledges_def sample_net_def budgeted_def fixed_agent_def parse_response_blank)

theorem post_success_was_acknowledged_witness:
  "\<exists>q n answer body. exchange (sample_net 202) (agent sample_transport) q n = (Inr answer, 1) \<and>
    200 \<le> uint (hr_status answer) \<and> uint (hr_status answer) < 300 \<and>
    hr_read_to_string answer MAX_RESPONSE_BYTES = Inr body \<and>
    parse_response rfc_serde (uint (hr_status answer)) body = Inr (response_new True 202 None None)"
  using post_success_was_acknowledged [OF sample_post_202] by auto

theorem service_routing_omits_key_witness:
  "\<exists>ms. read_object (serialize_request rfc_serde sample_request None) = Some ms \<and>
     map_of ms (lit ''serviceKey'') = None"
  using service_routing_omits_key [OF rfc_serde_quoting sample_routed_202] by (simp add: http_request_def)

lemma sample_exchange_bound: "took (sample_net status) n \<le> ATTEMPT_TIMEOUT"
  by (simp add: sample_net_def budgeted_def)

theorem post_time_bound_witness: "(100 :: nat) \<le> 6 * from_secs 8 + from_millis 15500 + 5 * (1 + 1)"
  using post_time_bound [OF sample_exchange_bound _ sample_post_202] by (simp add: sample_world_def)

text \<open>A delivery in its first backoff when the client is closed.\<close>

lemma sample_receive_503:
  "receive rfc_serde \<lparr>hr_status = 503, hr_read_to_string = (\<lambda>limit. Inr [])\<rparr> =
     Inl (Delivery (lit ''Oppex returned HTTP '' @ show_int 503) 503 True None)"
  by (simp add: receive_def status_failure_def parse_response_blank response_new_def response_message_def
      delivery_def is_retryable_status_def)

lemma sample_deliver_closed:
  "deliver rfc_serde (sample_net 503) (inner sample_client) request key (sample_world (Some 5000)) =
     (Inl interrupted_error,
      \<lparr>net = 1, clock = 5001, signal_at = Some 5000, wake_lag = 1,
       sent = [(0, http_request sample_transport (serialize_request rfc_serde request (option_or (service_key request) key)))]\<rparr>)"
  unfolding deliver_def execute_with_retry_def Let_def
  by (rule retry_loop_interrupted, simp add: send_in_def sample_call_defs fixed_agent_send sample_receive_503)
    (simp_all add: sample_call_defs DEFAULT_RETRY_DELAYS_def wait_in_cases signalled_by_def from_millis_def)

theorem close_outlasts_delivery_in_flight_witness: "(5001 :: nat) < 5000 + CLOSE_DRAIN_TIMEOUT"
  using close_outlasts_delivery_in_flight [OF sample_exchange_bound sample_deliver_closed [of sample_request None]]
  by (simp add: sample_world_def from_secs_def)

theorem client_build_correct_witness:
  "endpoint_url (transport (inner sample_client)) = DEFAULT_ENDPOINT \<and> \<not> closed sample_client \<and>
   retry_delays (inner sample_client) = DEFAULT_RETRY_DELAYS \<and> in_service_key (inner sample_client) = Some (lit ''svc'')"
  using client_build_correct [OF sample_client_built] by (simp add: accessors endpoint_def)

end
