(* ===== verification/Transition.thy ===== *)
theory Transition
  imports Main
begin

text \<open>
  Labelled transition systems for the concurrent components: runs as lists of labels, and
  the interface of an invariant, whose laws (it holds at the start, every step keeps it)
  give that it holds after every run.
\<close>

inductive run :: "('s \<Rightarrow> 'l \<Rightarrow> 's \<Rightarrow> bool) \<Rightarrow> 's \<Rightarrow> 'l list \<Rightarrow> 's \<Rightarrow> bool" for step where
  run_start: "run step s [] s"
| run_step: "run step s ls t \<Longrightarrow> step t l u \<Longrightarrow> run step s (ls @ [l]) u"

lemma run_append: "run step t ms u \<Longrightarrow> run step s ls t \<Longrightarrow> run step s (ls @ ms) u"
proof (induction rule: run.induct)
  case (run_step t ms u l v)
  then have "run step s ((ls @ ms) @ [l]) v" by (intro run.run_step)
  then show ?case by simp
qed simp

lemma run_Cons: "step s l t \<Longrightarrow> run step t ls u \<Longrightarrow> run step s (l # ls) u"
  using run_append [of step t ls u s "[l]"] run_step [OF run_start] by fastforce

lemma run_one: "step s l t \<Longrightarrow> run step s [l] t"
  by (rule run_Cons [OF _ run_start])

text \<open>
  An invariant of labels read so far and state: the label list lets an invariant speak of
  history (what was accepted, what was run), not only of the present state.
\<close>

locale trace_invariant =
  fixes step :: "'s \<Rightarrow> 'l \<Rightarrow> 's \<Rightarrow> bool"
    and start :: "'s \<Rightarrow> bool"
    and inv :: "'l list \<Rightarrow> 's \<Rightarrow> bool"
  assumes inv_start: "start s \<Longrightarrow> inv [] s"
    and inv_step: "inv ls s \<Longrightarrow> step s l t \<Longrightarrow> inv (ls @ [l]) t"
begin

lemma inv_run: "run step s ls t \<Longrightarrow> start s \<Longrightarrow> inv ls t"
  by (induction rule: run.induct) (auto intro: inv_start inv_step)

end

text \<open>An invariant of the state alone.\<close>

locale state_invariant =
  fixes step :: "'s \<Rightarrow> 'l \<Rightarrow> 's \<Rightarrow> bool"
    and inv :: "'s \<Rightarrow> bool"
  assumes keeps: "inv s \<Longrightarrow> step s l t \<Longrightarrow> inv t"
begin

lemma keeps_run: "run step s ls t \<Longrightarrow> inv s \<Longrightarrow> inv t"
  by (induction rule: run.induct) (auto intro: keeps)

end

sublocale state_invariant \<subseteq> trace: trace_invariant step inv "\<lambda>_. inv"
  by unfold_locales (auto intro: keeps)

text \<open>
  A rank: the steps with a label in \<open>own\<close> lower it, so a run of such steps alone is no longer
  than the rank of the state it starts in. Steps with a label in \<open>free\<close> keep it from rising.
\<close>

locale ranked_steps =
  fixes step :: "'s \<Rightarrow> 'l \<Rightarrow> 's \<Rightarrow> bool"
    and own :: "'l \<Rightarrow> bool"
    and free :: "'l \<Rightarrow> bool"
    and rank :: "'s \<Rightarrow> nat"
  assumes own_step: "step s l t \<Longrightarrow> own l \<Longrightarrow> rank t < rank s"
    and free_step: "step s l t \<Longrightarrow> free l \<Longrightarrow> rank t \<le> rank s"
begin

lemma rank_run:
  "run step s ls t \<Longrightarrow> list_all (\<lambda>l. own l \<or> free l) ls \<Longrightarrow> length (filter own ls) + rank t \<le> rank s"
proof (induction rule: run.induct)
  case (run_step s ls t l u)
  then show ?case
    using own_step [of t l u] free_step [of t l u] by (cases "own l") auto
qed simp

text \<open>From every state some run of own steps leads to a state where none is possible.\<close>

lemma maximal_run: "\<exists>ls t. run step s ls t \<and> list_all own ls \<and> (\<forall>l u. step t l u \<longrightarrow> \<not> own l)"
proof (induction "rank s" arbitrary: s rule: less_induct)
  case less
  show ?case
  proof (cases "\<exists>l u. step s l u \<and> own l")
    case True
    then obtain l u where u: "step s l u" "own l" by blast
    with less [of u] own_step obtain ls t where "run step u ls t" "list_all own ls"
      "\<forall>l u. step t l u \<longrightarrow> \<not> own l" by blast
    with u show ?thesis by (intro exI [of _ "l # ls"] exI [of _ t]) (auto intro: run_Cons)
  next
    case False
    then show ?thesis by (intro exI [of _ "[]"] exI [of _ s]) (auto intro: run_start)
  qed
qed

end

end
