(* ===== verification/Dispatcher_Threads.thy ===== *)
theory Dispatcher_Threads
  imports Dispatcher Transition
begin

text \<open>
  \<^verbatim>\<open>src/rust/src/internal/dispatcher.rs\<close> as a concurrent system: the worker threads, the
  threads that submit, the thread that closes, the mutex and the condition variable they
  share. A step is one critical section, one condition-variable operation, or the end of a
  task; any thread may take the next step. \<^verbatim>\<open>notify_one\<close> wakes one waiter of the scheduler's
  choice, a waiter may also wake spuriously, and a task may panic, which unwinds its worker.
\<close>

text \<open>
  Where a worker is in \<^verbatim>\<open>work\<close>: about to take the lock, blocked in \<^verbatim>\<open>changed.wait\<close>, in
  \<^verbatim>\<open>task()\<close>, between \<^verbatim>\<open>task()\<close> and the decrement, between the decrement and
  \<^verbatim>\<open>notify_all\<close>, returned, or unwound by a panic.
\<close>

datatype 'task worker = Looping | Waiting | Running 'task | Finished | Notifying | Exited | Panicked

text \<open>
  Where the closing thread is in \<^verbatim>\<open>close\<close>: not there yet, past the flag, in \<^verbatim>\<open>drain_until\<close>
  about to take the lock, blocked in \<^verbatim>\<open>wait_timeout\<close>, past the drain (with the number of
  abandoned tasks), or done. Only the call that finds \<^verbatim>\<open>accepting\<close> set gets past the flag.
\<close>

datatype closer = Open | Begun duration | Draining instant | DrainWait instant | Drained nat | Closed nat

record 'task System =
  shared :: "'task Shared"
  workers :: "'task worker list"
  closer :: closer
  pending :: nat \<comment> \<open>submitters between unlocking and \<^verbatim>\<open>notify_one\<close>\<close>
  time :: instant

definition dispatcher_new :: "nat \<Rightarrow> nat \<Rightarrow> instant \<Rightarrow> 'task System" where
  "dispatcher_new worker_count cap now =
     \<lparr>shared = shared_new cap now, workers = replicate worker_count Looping, closer = Open,
      pending = 0, time = now\<rparr>"

abbreviation st :: "'task System \<Rightarrow> 'task State" where
  "st S \<equiv> state (shared S)"

definition set_state :: "'task State \<Rightarrow> 'task System \<Rightarrow> 'task System" where
  "set_state s S = S\<lparr>shared := (shared S)\<lparr>state := s\<rparr>\<rparr>"

definition set_worker :: "nat \<Rightarrow> 'task worker \<Rightarrow> 'task System \<Rightarrow> 'task System" where
  "set_worker i w S = S\<lparr>workers := (workers S)[i := w]\<rparr>"

fun wake_worker :: "'task worker \<Rightarrow> 'task worker" where
  "wake_worker Waiting = Looping"
| "wake_worker w = w"

fun wake_closer :: "closer \<Rightarrow> closer" where
  "wake_closer (DrainWait deadline) = Draining deadline"
| "wake_closer c = c"

definition notify_all :: "'task System \<Rightarrow> 'task System" where
  "notify_all S = S\<lparr>workers := map wake_worker (workers S), closer := wake_closer (closer S)\<rparr>"

text \<open>
  The labels of steps that matter to a task's history: accepted (with the tasks it pushed
  out), refused, taken by a worker, ended, ended by a panic, abandoned by the drain; \<open>Shut\<close> is the
  moment \<^verbatim>\<open>close\<close> stops admitting work. The other steps are told apart by who takes them: a
  \<^verbatim>\<open>notify_one\<close>, a worker outside its task, a spurious wake-up of a worker, the
  \<^verbatim>\<open>notify_all\<close> that ends \<^verbatim>\<open>close\<close>, and the rest (the
  closing thread and the clock).
\<close>

datatype 'task label =
    Accept 'task "'task list"
  | Refuse 'task
  | Take 'task
  | Finish 'task
  | Panic 'task
  | Abandon "'task list"
  | Shut duration
  | Notified
  | Worked
  | Spurious
  | Released
  | Internal

inductive dstep :: "'task System \<Rightarrow> 'task label \<Rightarrow> 'task System \<Rightarrow> bool" where
  submit_accept:
    "submit (time S) now' t (shared S) = (True, warned, sh) \<Longrightarrow>
     dstep S (Accept t (evicted (shared S))) (S\<lparr>shared := sh, pending := pending S + 1\<rparr>)"
| submit_refuse:
    "submit (time S) now' t (shared S) = (False, warned, sh) \<Longrightarrow>
     dstep S (Refuse t) (S\<lparr>shared := sh\<rparr>)"
| notify_one_worker:
    "0 < pending S \<Longrightarrow> i < length (workers S) \<Longrightarrow> workers S ! i = Waiting \<Longrightarrow>
     dstep S Notified (set_worker i Looping (S\<lparr>pending := pending S - 1\<rparr>))"
| notify_one_closer:
    "0 < pending S \<Longrightarrow> closer S = DrainWait deadline \<Longrightarrow>
     dstep S Notified (S\<lparr>pending := pending S - 1, closer := Draining deadline\<rparr>)"
| notify_one_nobody:
    "0 < pending S \<Longrightarrow> Waiting \<notin> set (workers S) \<Longrightarrow> wake_closer (closer S) = closer S \<Longrightarrow>
     dstep S Notified (S\<lparr>pending := pending S - 1\<rparr>)"
| work_take:
    "i < length (workers S) \<Longrightarrow> workers S ! i = Looping \<Longrightarrow> work_poll (st S) = (Took t, s) \<Longrightarrow>
     dstep S (Take t) (set_worker i (Running t) (set_state s S))"
| work_block:
    "i < length (workers S) \<Longrightarrow> workers S ! i = Looping \<Longrightarrow> work_poll (st S) = (Block, s) \<Longrightarrow>
     dstep S Worked (set_worker i Waiting (set_state s S))"
| work_exit:
    "i < length (workers S) \<Longrightarrow> workers S ! i = Looping \<Longrightarrow> work_poll (st S) = (Exit, s) \<Longrightarrow>
     dstep S Worked (set_worker i Exited (set_state s S))"
| work_spurious:
    "i < length (workers S) \<Longrightarrow> workers S ! i = Waiting \<Longrightarrow> dstep S Spurious (set_worker i Looping S)"
| work_finish:
    "i < length (workers S) \<Longrightarrow> workers S ! i = Running t \<Longrightarrow>
     dstep S (Finish t) (set_worker i Finished S)"
| work_panic:
    "i < length (workers S) \<Longrightarrow> workers S ! i = Running t \<Longrightarrow>
     dstep S (Panic t) (set_worker i Panicked S)"
| work_decrement:
    "i < length (workers S) \<Longrightarrow> workers S ! i = Finished \<Longrightarrow>
     dstep S Worked (set_worker i Notifying (set_state (work_done (st S)) S))"
| work_notify:
    "i < length (workers S) \<Longrightarrow> workers S ! i = Notifying \<Longrightarrow>
     dstep S Worked (notify_all (set_worker i Looping S))"
| close_start:
    "close_begin (st S) = Some s \<Longrightarrow> dstep S (Shut timeout) (set_state s S\<lparr>closer := Begun timeout\<rparr>)"
| close_again:
    "close_begin (st S) = None \<Longrightarrow> dstep S Internal S"
| close_deadline:
    "closer S = Begun timeout \<Longrightarrow> dstep S Internal (S\<lparr>closer := Draining (time S + timeout)\<rparr>)"
| drain_wait:
    "closer S = Draining deadline \<Longrightarrow> drain_turn deadline (time S) (st S) = Some remaining \<Longrightarrow>
     dstep S Internal (S\<lparr>closer := DrainWait deadline\<rparr>)"
| drain_wake:
    "closer S = DrainWait deadline \<Longrightarrow> dstep S Internal (S\<lparr>closer := Draining deadline\<rparr>)"
| drain_leave:
    "closer S = Draining deadline \<Longrightarrow> drain_turn deadline (time S) (st S) = None \<Longrightarrow>
     drain_finish (st S) = (abandoned, s) \<Longrightarrow>
     dstep S (Abandon (tasks (st S))) (set_state s S\<lparr>closer := Drained abandoned\<rparr>)"
| close_notify:
    "closer S = Drained abandoned \<Longrightarrow> dstep S Released (notify_all S\<lparr>closer := Closed abandoned\<rparr>)"
| tick:
    "dstep S Internal (S\<lparr>time := time S + d\<rparr>)"

inductive_cases dstep_AcceptE: "dstep S (Accept t ev) T"
inductive_cases dstep_RefuseE: "dstep S (Refuse t) T"
inductive_cases dstep_TakeE: "dstep S (Take t) T"
inductive_cases dstep_FinishE: "dstep S (Finish t) T"
inductive_cases dstep_AbandonE: "dstep S (Abandon ts) T"

text \<open>How the building blocks act on each field.\<close>

lemma set_state_simps [simp]:
  "shared (set_state s S) = (shared S)\<lparr>state := s\<rparr>" "workers (set_state s S) = workers S"
  "closer (set_state s S) = closer S" "pending (set_state s S) = pending S" "time (set_state s S) = time S"
  by (simp_all add: set_state_def)

lemma set_worker_simps [simp]:
  "shared (set_worker i w S) = shared S" "workers (set_worker i w S) = (workers S)[i := w]"
  "closer (set_worker i w S) = closer S" "pending (set_worker i w S) = pending S"
  "time (set_worker i w S) = time S"
  by (simp_all add: set_worker_def)

lemma notify_all_simps [simp]:
  "shared (notify_all S) = shared S" "workers (notify_all S) = map wake_worker (workers S)"
  "closer (notify_all S) = wake_closer (closer S)" "pending (notify_all S) = pending S"
  "time (notify_all S) = time S"
  by (simp_all add: notify_all_def)

lemma wake_worker_not_Waiting [simp]: "wake_worker w \<noteq> Waiting"
  by (cases w) auto

text \<open>The critical sections, by what they find.\<close>

lemma work_poll_Took:
  "work_poll s = (Took t, s') \<longleftrightarrow>
     (\<exists>rest. tasks s = t # rest \<and> s' = s\<lparr>tasks := rest, active := active s + 1\<rparr>)"
  by (auto simp: work_poll_def split: list.splits if_splits)

lemma work_poll_Block: "work_poll s = (Block, s') \<longleftrightarrow> tasks s = [] \<and> draining s \<and> s' = s"
  by (auto simp: work_poll_def split: list.splits if_splits)

lemma work_poll_Exit: "work_poll s = (Exit, s') \<longleftrightarrow> tasks s = [] \<and> \<not> draining s \<and> s' = s"
  by (auto simp: work_poll_def split: list.splits if_splits)

lemma close_begin_Some: "close_begin s = Some s' \<longleftrightarrow> accepting s \<and> s' = s\<lparr>accepting := False\<rparr>"
  by (auto simp: close_begin_def)

lemma close_begin_None: "close_begin s = None \<longleftrightarrow> \<not> accepting s"
  by (simp add: close_begin_def)

lemmas sections = work_poll_Took work_poll_Block work_poll_Exit close_begin_Some close_begin_None
  drain_finish_def work_done_def

subsection \<open>The state invariant\<close>

text \<open>A worker that has incremented \<^verbatim>\<open>active\<close> and not decremented it again.\<close>

fun busy :: "'task worker \<Rightarrow> bool" where
  "busy (Running _) = True"
| "busy Finished = True"
| "busy Panicked = True"
| "busy _ = False"

definition busy_count :: "'task worker list \<Rightarrow> nat" where
  "busy_count ws = length (filter busy ws)"

definition drained :: "closer \<Rightarrow> bool" where
  "drained c \<longleftrightarrow> (case c of Drained _ \<Rightarrow> True | Closed _ \<Rightarrow> True | _ \<Rightarrow> False)"

definition queue_inv :: "'task System \<Rightarrow> bool" where
  "queue_inv S \<longleftrightarrow> length (tasks (st S)) \<le> max 1 (capacity (shared S))"

definition active_inv :: "'task System \<Rightarrow> bool" where
  "active_inv S \<longleftrightarrow> length (workers S) < 2 ^ 64 \<and> unat (active (st S)) = busy_count (workers S)"

definition phase_inv :: "'task System \<Rightarrow> bool" where
  "phase_inv S \<longleftrightarrow>
     (accepting (st S) \<longleftrightarrow> closer S = Open) \<and> (draining (st S) \<longleftrightarrow> \<not> drained (closer S)) \<and>
     (\<not> draining (st S) \<longrightarrow> tasks (st S) = [])"

lemma busy_wake [simp]: "busy (wake_worker w) = busy w"
  by (cases w) auto

lemma busy_count_wake [simp]: "busy_count (map wake_worker ws) = busy_count ws"
  by (simp add: busy_count_def filter_map comp_def)

lemma busy_count_update:
  "i < length ws \<Longrightarrow> busy_count (ws[i := w]) + of_bool (busy (ws ! i)) = busy_count ws + of_bool (busy w)"
  unfolding busy_count_def by (rule length_filter_update)

lemma busy_count_le: "busy_count ws \<le> length ws"
  by (simp add: busy_count_def)

lemma busy_count_less: "i < length ws \<Longrightarrow> \<not> busy (ws ! i) \<Longrightarrow> busy_count ws < length ws"
  unfolding busy_count_def by (meson length_filter_less nth_mem)

lemma drained_wake [simp]: "drained (wake_closer c) = drained c"
  by (cases c) (auto simp: drained_def)

lemma drained_simps [simp]:
  "\<not> drained Open" "\<not> drained (Begun d)" "\<not> drained (Draining t)" "\<not> drained (DrainWait t)"
  "drained (Drained n)" "drained (Closed n)"
  by (simp_all add: drained_def)

lemma wake_closer_Open [simp]: "wake_closer c = Open \<longleftrightarrow> c = Open"
  by (cases c) auto

interpretation queue_bound: state_invariant dstep queue_inv
proof
  fix S T :: "'task System" and l
  assume inv: "queue_inv S" and "dstep S l T"
  from this(2) show "queue_inv T"
    using inv
  proof (cases rule: dstep.cases)
    case (submit_accept now' t warned sh)
    then show ?thesis
      using inv submit_length [OF submit_accept(3)] submit_fields(2) [OF submit_accept(3)]
      by (simp add: queue_inv_def)
  next
    case (submit_refuse now' t warned sh)
    then show ?thesis using inv submit_fields(1) by (fastforce simp: submit_refused)
  qed (auto simp: queue_inv_def sections)
qed

interpretation phases: state_invariant dstep phase_inv
proof
  fix S T :: "'task System" and l
  assume inv: "phase_inv S" and "dstep S l T"
  from this(2) show "phase_inv T"
    using inv
  proof (cases rule: dstep.cases)
    case (submit_accept now' t warned sh)
    then show ?thesis using inv submit_fields [OF submit_accept(3)] by (auto simp: phase_inv_def)
  next
    case (submit_refuse now' t warned sh)
    then show ?thesis using inv submit_fields(1) by (fastforce simp: submit_refused)
  qed (auto simp: phase_inv_def sections)
qed

lemma unat_plus_1: "unat (w :: usize) + 1 < 2 ^ 64 \<Longrightarrow> unat (w + 1) = unat w + 1"
  by (simp add: unat_word_ariths)

lemma unat_minus_1: "0 < unat (w :: usize) \<Longrightarrow> unat (w - 1) = unat w - 1"
  by (rule unat_minus_one) auto

interpretation actives: state_invariant dstep active_inv
proof
  fix S T :: "'task System" and l
  assume inv: "active_inv S" and "dstep S l T"
  then have len: "length (workers S) < 2 ^ 64" and act: "unat (active (st S)) = busy_count (workers S)"
    by (simp_all add: active_inv_def)
  from \<open>dstep S l T\<close> show "active_inv T"
  proof (cases rule: dstep.cases)
    case (submit_accept now' t warned sh)
    then show ?thesis using inv submit_fields [OF submit_accept(3)] by (auto simp: active_inv_def)
  next
    case (submit_refuse now' t warned sh)
    then show ?thesis using inv submit_fields(1) by (fastforce simp: submit_refused)
  next
    case (work_take i t s)
    have "busy_count (workers S) < length (workers S)"
      using work_take by (intro busy_count_less) auto
    then have "unat (active (st S) + 1) = unat (active (st S)) + 1"
      using len act by (intro unat_plus_1) simp
    then show ?thesis
      using work_take len act busy_count_update [of i "workers S" "Running t"]
      by (auto simp: active_inv_def sections)
  next
    case (work_decrement i)
    have eq: "busy_count ((workers S)[i := Notifying]) + 1 = busy_count (workers S)"
      using work_decrement busy_count_update [of i "workers S" Notifying] by simp
    then have "unat (active (st S) - 1) = unat (active (st S)) - 1"
      using act by (intro unat_minus_1) simp
    then show ?thesis using work_decrement len act eq by (auto simp: active_inv_def sections)
  next
    case (notify_one_worker i)
    then show ?thesis
      using inv busy_count_update [of i "workers S" Looping] by (auto simp: active_inv_def)
  next
    case (work_block i s)
    then show ?thesis
      using inv busy_count_update [of i "workers S" Waiting] by (auto simp: active_inv_def sections)
  next
    case (work_exit i s)
    then show ?thesis
      using inv busy_count_update [of i "workers S" Exited] by (auto simp: active_inv_def sections)
  next
    case (work_spurious i)
    then show ?thesis
      using inv busy_count_update [of i "workers S" Looping] by (auto simp: active_inv_def)
  next
    case (work_finish i t)
    then show ?thesis
      using inv busy_count_update [of i "workers S" Finished] by (auto simp: active_inv_def)
  next
    case (work_panic i t)
    then show ?thesis
      using inv busy_count_update [of i "workers S" Panicked] by (auto simp: active_inv_def)
  next
    case (work_notify i)
    then show ?thesis
      using inv busy_count_update [of i "workers S" Looping] by (auto simp: active_inv_def)
  qed (use inv in \<open>auto simp: active_inv_def sections\<close>)
qed

subsection \<open>No lost wake-up while the dispatcher is open\<close>

text \<open>
  If some worker sleeps, every queued task is accounted for by a notification still to come
  or by a worker on its way to the queue.
\<close>

definition looping_count :: "'task worker list \<Rightarrow> nat" where
  "looping_count ws = length (filter (\<lambda>w. w = Looping) ws)"

definition wake_inv :: "'task System \<Rightarrow> bool" where
  "wake_inv S \<longleftrightarrow>
     (closer S = Open \<longrightarrow> Waiting \<in> set (workers S) \<longrightarrow>
        length (tasks (st S)) \<le> pending S + looping_count (workers S))"

lemma looping_count_update:
  "i < length ws \<Longrightarrow>
     looping_count (ws[i := w]) + of_bool (ws ! i = Looping) = looping_count ws + of_bool (w = Looping)"
  unfolding looping_count_def by (rule length_filter_update)

lemma no_Waiting_after_wake [simp]: "Waiting \<notin> wake_worker ` W"
  by (metis imageE wake_worker_not_Waiting)

interpretation wakeups: state_invariant dstep wake_inv
proof
  fix S T :: "'task System" and l
  assume inv: "wake_inv S" and "dstep S l T"
  from this(2) show "wake_inv T"
  proof (cases rule: dstep.cases)
    case (submit_accept now' t warned sh)
    then show ?thesis
      using inv submit_tasks(2) [OF submit_accept(3)] by (auto simp: wake_inv_def)
  next
    case (submit_refuse now' t warned sh)
    then show ?thesis using inv submit_fields(1) by (fastforce simp: submit_refused)
  next
    case (notify_one_worker i)
    then show ?thesis
      using inv looping_count_update [of i "workers S" Looping]
      by (auto simp: wake_inv_def dest!: mem_updateD)
  next
    case (work_take i t s)
    then show ?thesis
      using inv looping_count_update [of i "workers S" "Running t"]
      by (auto simp: wake_inv_def sections dest!: mem_updateD)
  next
    case (work_spurious i)
    then show ?thesis
      using inv looping_count_update [of i "workers S" Looping]
      by (auto simp: wake_inv_def dest!: mem_updateD)
  next
    case (work_exit i s)
    then show ?thesis by (auto simp: wake_inv_def sections)
  next
    case (work_finish i t)
    then show ?thesis
      using inv looping_count_update [of i "workers S" Finished]
      by (auto simp: wake_inv_def dest!: mem_updateD)
  next
    case (work_panic i t)
    then show ?thesis
      using inv looping_count_update [of i "workers S" Panicked]
      by (auto simp: wake_inv_def dest!: mem_updateD)
  next
    case (work_decrement i)
    then show ?thesis
      using inv looping_count_update [of i "workers S" Notifying]
      by (auto simp: wake_inv_def sections dest!: mem_updateD)
  qed (use inv in \<open>auto simp: wake_inv_def sections\<close>)
qed

subsection \<open>The history of a task\<close>

fun accepted_by :: "'task label \<Rightarrow> 'task list" where
  "accepted_by (Accept t _) = [t]"
| "accepted_by _ = []"

fun refused_by :: "'task label \<Rightarrow> 'task list" where
  "refused_by (Refuse t) = [t]"
| "refused_by _ = []"

fun evicted_by :: "'task label \<Rightarrow> 'task list" where
  "evicted_by (Accept _ ev) = ev"
| "evicted_by _ = []"

fun taken_by :: "'task label \<Rightarrow> 'task list" where
  "taken_by (Take t) = [t]"
| "taken_by _ = []"

fun abandoned_by :: "'task label \<Rightarrow> 'task list" where
  "abandoned_by (Abandon ts) = ts"
| "abandoned_by _ = []"

fun finished_by :: "'task label \<Rightarrow> 'task list" where
  "finished_by (Finish t) = [t]"
| "finished_by _ = []"

fun panicked_by :: "'task label \<Rightarrow> 'task list" where
  "panicked_by (Panic t) = [t]"
| "panicked_by _ = []"

text \<open>The tasks that leave the queue at a step, in the order they leave.\<close>

definition removed_by :: "'task label \<Rightarrow> 'task list" where
  "removed_by l = evicted_by l @ taken_by l @ abandoned_by l"

abbreviation history :: "('task label \<Rightarrow> 'task list) \<Rightarrow> 'task label list \<Rightarrow> 'task list" where
  "history f ls \<equiv> concat (map f ls)"

fun running_of :: "'task worker \<Rightarrow> 'task list" where
  "running_of (Running t) = [t]"
| "running_of _ = []"

definition running_tasks :: "'task worker list \<Rightarrow> 'task list" where
  "running_tasks ws = concat (map running_of ws)"

lemma running_of_wake [simp]: "running_of (wake_worker w) = running_of w"
  by (cases w) auto

lemma running_tasks_wake [simp]: "running_tasks (map wake_worker ws) = running_tasks ws"
  by (simp add: running_tasks_def comp_def)

lemma running_tasks_update:
  "i < length ws \<Longrightarrow>
     mset (running_tasks (ws[i := w])) + mset (running_of (ws ! i)) = mset (running_tasks ws) + mset (running_of w)"
  unfolding running_tasks_def by (rule mset_concat_update)

lemma running_tasks_same:
  "i < length ws \<Longrightarrow> running_of (ws ! i) = [] \<Longrightarrow> running_of w = [] \<Longrightarrow>
     mset (running_tasks (ws[i := w])) = mset (running_tasks ws)"
  using running_tasks_update [of i ws w] by simp

definition fifo_inv :: "'task label list \<Rightarrow> 'task System \<Rightarrow> bool" where
  "fifo_inv ls S \<longleftrightarrow> history accepted_by ls = history removed_by ls @ tasks (st S)"

definition run_inv :: "'task label list \<Rightarrow> 'task System \<Rightarrow> bool" where
  "run_inv ls S \<longleftrightarrow>
     mset (history taken_by ls) =
       mset (history finished_by ls) + mset (history panicked_by ls) + mset (running_tasks (workers S))"

definition fresh :: "'task System \<Rightarrow> bool" where
  "fresh S \<longleftrightarrow> tasks (st S) = [] \<and> running_tasks (workers S) = []"

interpretation fifo: trace_invariant dstep fresh fifo_inv
proof
  fix S :: "'task System"
  assume "fresh S"
  then show "fifo_inv [] S" by (simp add: fresh_def fifo_inv_def)
next
  fix ls l and S T :: "'task System"
  assume inv: "fifo_inv ls S" and "dstep S l T"
  from this(2) show "fifo_inv (ls @ [l]) T"
  proof (cases rule: dstep.cases)
    case (submit_accept now' t warned sh)
    then show ?thesis
      using inv submit_tasks(1) [OF submit_accept(3)] by (simp add: fifo_inv_def removed_by_def)
  next
    case (submit_refuse now' t warned sh)
    then show ?thesis using inv submit_fields(1) by (fastforce simp: submit_refused fifo_inv_def removed_by_def)
  qed (use inv in \<open>auto simp: fifo_inv_def removed_by_def sections\<close>)
qed

interpretation executions: trace_invariant dstep fresh run_inv
proof
  fix S :: "'task System"
  assume "fresh S"
  then show "run_inv [] S" by (simp add: fresh_def run_inv_def)
next
  fix ls l and S T :: "'task System"
  assume inv: "run_inv ls S" and "dstep S l T"
  from this(2) show "run_inv (ls @ [l]) T"
  proof (cases rule: dstep.cases)
    case (work_take i t s)
    then show ?thesis
      using inv running_tasks_update [of i "workers S" "Running t"] by (simp add: run_inv_def)
  next
    case (work_finish i t)
    then show ?thesis
      using inv running_tasks_update [of i "workers S" Finished] by (simp add: run_inv_def)
  next
    case (work_panic i t)
    then show ?thesis
      using inv running_tasks_update [of i "workers S" Panicked] by (simp add: run_inv_def)
  qed (use inv in \<open>auto simp: run_inv_def running_tasks_same\<close>)
qed

lemma fresh_new: "fresh (dispatcher_new n cap now)"
  by (simp add: fresh_def dispatcher_new_def shared_new_def running_tasks_def map_replicate_const)

end
