(* ===== verification/Dispatcher_Properties.thy ===== *)
theory Dispatcher_Properties
  imports Dispatcher_Threads
begin

text \<open>
  What the dispatcher's users rely on, for every run of the system of
  \<^verbatim>\<open>Dispatcher_Threads\<close>: bounds, wake-ups, closing and draining, and the two places where the
  code does less than it means to.
\<close>

lemma new_queue_inv: "queue_inv (dispatcher_new n cap now)"
  by (simp add: queue_inv_def dispatcher_new_def shared_new_def)

lemma new_phase_inv: "phase_inv (dispatcher_new n cap now)"
  by (simp add: phase_inv_def dispatcher_new_def shared_new_def)

lemma new_active_inv: "n < 2 ^ 64 \<Longrightarrow> active_inv (dispatcher_new n cap now)"
  by (simp add: active_inv_def dispatcher_new_def shared_new_def busy_count_def)

lemma new_wake_inv: "wake_inv (dispatcher_new n cap now)"
  by (simp add: wake_inv_def dispatcher_new_def)

lemmas reachable_queue_inv = queue_bound.keeps_run [OF _ new_queue_inv]
lemmas reachable_phase_inv = phases.keeps_run [OF _ new_phase_inv]
lemmas reachable_active_inv = actives.keeps_run [OF _ new_active_inv]
lemmas reachable_wake_inv = wakeups.keeps_run [OF _ new_wake_inv]

lemma step_constants:
  assumes "dstep S l T"
  shows "capacity (shared T) = capacity (shared S) \<and> length (workers T) = length (workers S) \<and> time S \<le> time T"
  using assms
proof (cases rule: dstep.cases)
  case (submit_accept now' t warned sh)
  then show ?thesis using submit_fields(2) [OF submit_accept(3)] by simp
next
  case (submit_refuse now' t warned sh)
  then show ?thesis using submit_fields(2) [OF submit_refuse(3)] by simp
qed auto

lemma run_constants:
  "run dstep S ls T \<Longrightarrow>
     capacity (shared T) = capacity (shared S) \<and> length (workers T) = length (workers S) \<and> time S \<le> time T"
  by (induction rule: run.induct) (use step_constants in \<open>force+\<close>)

subsection \<open>The fate of a task\<close>

lemma reachable_fifo:
  "run dstep (dispatcher_new n cap now) ls S \<Longrightarrow> history accepted_by ls = history removed_by ls @ tasks (st S)"
  using fifo.inv_run [OF _ fresh_new] by (simp add: fifo_inv_def)

lemma reachable_executions:
  "run dstep (dispatcher_new n cap now) ls S \<Longrightarrow>
     mset (history taken_by ls) =
       mset (history finished_by ls) + mset (history panicked_by ls) + mset (running_tasks (workers S))"
  using executions.inv_run [OF _ fresh_new] by (simp add: run_inv_def)

text \<open>
  C16. Tasks leave the queue first-in first-out and nothing is lost or invented: in every run
  of the dispatcher, under any interleaving, the tasks accepted so far, in order, are the
  tasks that have left the queue (evicted, taken by a worker or abandoned), in the order
  they left, followed by the tasks still queued.
\<close>

theorem dispatcher_fifo:
  assumes "run dstep (dispatcher_new n cap now) ls S"
  shows "history accepted_by ls = history removed_by ls @ tasks (st S)"
  by (rule reachable_fifo [OF assms])

lemma mset_history_removed:
  "mset (history removed_by ls) =
     mset (history evicted_by ls) + mset (history taken_by ls) + mset (history abandoned_by ls)"
  by (induction ls) (simp_all add: removed_by_def)

text \<open>
  Every accepted task has exactly one fate: counted with multiplicity, the accepted tasks
  are the evicted, finished, panicked, abandoned, running and queued ones; in particular no
  task is run twice and no abandoned task is run.
\<close>

lemma every_task_has_one_fate:
  assumes "run dstep (dispatcher_new n cap now) ls S"
  shows "mset (history accepted_by ls) =
    mset (history evicted_by ls) + mset (history finished_by ls) + mset (history panicked_by ls) +
    mset (history abandoned_by ls) + mset (running_tasks (workers S)) + mset (tasks (st S))"
  using reachable_fifo [OF assms] reachable_executions [OF assms] by (simp add: mset_history_removed)

subsection \<open>Bounds\<close>

text \<open>
  The queue of a client's dispatcher never holds more than 5000 tasks, whatever the
  interleaving of submitters, workers and close.
\<close>

lemma queue_never_exceeds_capacity:
  assumes "run dstep (dispatcher_new WORKER_COUNT QUEUE_CAPACITY now) ls S"
  shows "length (tasks (st S)) \<le> 5000"
proof -
  have "capacity (shared S) = 5000"
    using run_constants [OF assms] by (simp add: dispatcher_new_def shared_new_def QUEUE_CAPACITY_def)
  with reachable_queue_inv [OF assms] show ?thesis by (simp add: queue_inv_def)
qed

text \<open>
  C26. The \<^verbatim>\<open>active\<close> counter is exact: in every reachable state it is the number of workers that
  took a task and have not yet given it back, so its increment never overflows and its
  decrement never underflows.
\<close>

theorem active_counts_busy_workers:
  assumes "run dstep (dispatcher_new n cap now) ls S" and "n < 2 ^ 64"
  shows "unat (active (st S)) = busy_count (workers S) \<and> busy_count (workers S) \<le> n"
proof -
  have "length (workers S) = n" using run_constants [OF assms(1)] by (simp add: dispatcher_new_def)
  with reachable_active_inv [OF assms] busy_count_le [of "workers S"] show ?thesis
    by (simp add: active_inv_def)
qed

subsection \<open>Wake-ups\<close>

text \<open>
  C22. No wake-up is lost while the dispatcher is open: if a worker is asleep, there are at
  least as many pending notifications and workers heading for the queue as queued tasks; so
  a task never sits in the queue with every worker asleep and nobody about to notify.
\<close>

theorem no_lost_wakeup_while_open:
  assumes "run dstep (dispatcher_new n cap now) ls S" and "closer S = Open" and "Waiting \<in> set (workers S)"
  shows "length (tasks (st S)) \<le> pending S + looping_count (workers S)"
  using reachable_wake_inv [OF assms(1)] assms(2,3) by (simp add: wake_inv_def)

subsection \<open>Closing\<close>

lemma accept_needs_open: "dstep S l T \<Longrightarrow> accepted_by l \<noteq> [] \<Longrightarrow> accepting (st S)"
  by (cases l) (auto elim!: dstep_AcceptE dest: submit_fields(1))

definition shut_inv :: "'task System \<Rightarrow> bool" where
  "shut_inv S \<longleftrightarrow> \<not> accepting (st S)"

definition over_inv :: "'task System \<Rightarrow> bool" where
  "over_inv S \<longleftrightarrow> \<not> accepting (st S) \<and> \<not> draining (st S) \<and> tasks (st S) = []"

interpretation shut: state_invariant dstep shut_inv
proof
  fix S T :: "'task System" and l
  assume inv: "shut_inv S" and "dstep S l T"
  from this(2) show "shut_inv T"
  proof (cases rule: dstep.cases)
    case (submit_accept now' t warned sh)
    then show ?thesis using inv submit_fields [OF submit_accept(3)] by (simp add: shut_inv_def)
  next
    case (submit_refuse now' t warned sh)
    then show ?thesis using inv submit_fields [OF submit_refuse(3)] by (simp add: shut_inv_def)
  qed (use inv in \<open>auto simp: shut_inv_def sections\<close>)
qed

interpretation over: state_invariant dstep over_inv
proof
  fix S T :: "'task System" and l
  assume inv: "over_inv S" and "dstep S l T"
  from this(2) show "over_inv T"
  proof (cases rule: dstep.cases)
    case (submit_accept now' t warned sh)
    then show ?thesis using inv submit_fields [OF submit_accept(3)] by (simp add: over_inv_def)
  next
    case (submit_refuse now' t warned sh)
    then show ?thesis using inv by (simp add: over_inv_def submit_refused)
  qed (use inv in \<open>auto simp: over_inv_def sections\<close>)
qed

text \<open>
  A closed dispatcher stays closed: from the moment \<^verbatim>\<open>close\<close> clears the flag, no run
  accepts another task and no later step sets the flag again.
\<close>

lemma closed_dispatcher_accepts_nothing:
  assumes "run dstep S ls T" and "\<not> accepting (st S)"
  shows "history accepted_by ls = [] \<and> \<not> accepting (st T)"
  using assms
proof (induction rule: run.induct)
  case (run_step S ls T l U)
  then have "shut_inv T" by (simp add: shut_inv_def)
  with run_step show ?case
    using accept_needs_open [of T l U] shut.keeps [of T l U] by (auto simp: shut_inv_def)
qed simp

lemma take_needs_task: "dstep S l T \<Longrightarrow> taken_by l \<noteq> [] \<Longrightarrow> tasks (st S) \<noteq> []"
  by (cases l) (auto elim!: dstep_TakeE simp: sections)

lemma over_run: "run dstep S ls T \<Longrightarrow> over_inv S \<Longrightarrow> history taken_by ls = [] \<and> history accepted_by ls = []"
proof (induction rule: run.induct)
  case (run_step S ls T l U)
  then have "over_inv T" by (auto intro: over.keeps_run)
  with run_step show ?case
    using take_needs_task [of T l U] accept_needs_open [of T l U] by (auto simp: over_inv_def)
qed simp

text \<open>
  Once the drain is over, no task ever starts: after the closing thread has left
  \<^verbatim>\<open>drain_until\<close>, the queue is empty and no run takes or accepts another task, so an
  abandoned task never runs.
\<close>

lemma nothing_starts_after_drain:
  assumes "run dstep (dispatcher_new n cap now) ls S" and "drained (closer S)" and "run dstep S ms T"
  shows "tasks (st S) = [] \<and> history taken_by ms = [] \<and> history accepted_by ms = [] \<and> tasks (st T) = []"
proof -
  have "phase_inv S" by (rule reachable_phase_inv [OF assms(1)])
  with assms(2) have "over_inv S" by (auto simp: phase_inv_def over_inv_def)
  with over_run [OF assms(3)] over.keeps_run [OF assms(3)] show ?thesis by (simp add: over_inv_def)
qed

lemma drain_turn_None:
  "drain_turn deadline now s = None \<longleftrightarrow> tasks s = [] \<and> active s = 0 \<or> deadline < now"
  by (auto simp: drain_turn_def checked_duration_since_def word_gt_0 split: if_splits)

text \<open>
  C27. \<^verbatim>\<open>close\<close> gives up on nothing before its deadline: when it leaves the drain while the
  deadline has not passed, it abandons no task and no worker is in the middle of one.
\<close>

theorem close_abandons_only_after_deadline:
  assumes "run dstep (dispatcher_new n cap now) ls S" and "n < 2 ^ 64" and "dstep S (Abandon ts) T"
  shows "\<exists>deadline. closer S = Draining deadline \<and>
    (time S \<le> deadline \<longrightarrow> ts = [] \<and> busy_count (workers S) = 0)"
  using assms(3) reachable_active_inv [OF assms(1,2)]
  by (auto elim!: dstep_AbandonE simp: drain_turn_None active_inv_def)

text \<open>When a closing thread that is not woken before then will have to leave its drain.\<close>

fun last_call :: "instant \<Rightarrow> closer \<Rightarrow> instant" where
  "last_call now (Begun timeout) = now + timeout"
| "last_call now (Draining deadline) = deadline"
| "last_call now (DrainWait deadline) = deadline"
| "last_call now _ = now"

lemma notify_closes:
  assumes "closer S = Drained n"
  shows "\<exists>T. run dstep S [Released] T \<and> closer T = Closed n \<and> time T = time S \<and> workers T = map wake_worker (workers S)"
  by (intro exI [of _ "notify_all S\<lparr>closer := Closed n\<rparr>"] conjI run_one close_notify [OF assms]) simp_all

lemma drain_closes:
  assumes "closer S = Draining deadline"
  shows "\<exists>ls T n. run dstep S ls T \<and> closer T = Closed n \<and> time T \<le> max (time S) (deadline + 1) \<and>
    workers T = map wake_worker (workers S)"
proof -
  define S1 where "S1 = S\<lparr>time := time S + (deadline + 1 - time S)\<rparr>"
  define S2 where "S2 = set_state ((st S1)\<lparr>draining := False, tasks := []\<rparr>) S1\<lparr>closer := Drained (length (tasks (st S1)))\<rparr>"
  have late: "deadline < time S + (deadline + 1 - time S)" by arith
  have step1: "dstep S Internal S1" unfolding S1_def by (rule tick)
  have step2: "dstep S1 (Abandon (tasks (st S1))) S2"
    unfolding S2_def
    by (rule drain_leave [of _ deadline])
      (use late in \<open>simp_all add: S1_def drain_turn_None drain_finish_def assms\<close>)
  obtain T where T: "run dstep S2 [Released] T" and "closer T = Closed (length (tasks (st S1)))"
    and "time T = time S2" and "workers T = map wake_worker (workers S2)"
    using notify_closes [of S2 "length (tasks (st S1))"] by (auto simp: S2_def)
  moreover have "run dstep S [Internal, Abandon (tasks (st S1)), Released] T"
    by (rule run_Cons [where step = dstep, OF step1 run_Cons [where step = dstep, OF step2 T]])
  moreover have "time S2 \<le> max (time S) (deadline + 1)" "workers S2 = workers S"
    by (simp_all add: S1_def S2_def)
  ultimately show ?thesis by metis
qed

text \<open>
  C28. \<^verbatim>\<open>close\<close> depends on nobody: wherever a closing thread is, its own steps and the passing of
  time suffice to bring it to the end of \<^verbatim>\<open>close\<close>, no later than just after its deadline,
  while the workers do nothing but be woken; in particular a task that never ends, a dead
  worker or a lost wake-up cannot hold it.
\<close>

theorem close_can_always_return:
  assumes "closer S \<noteq> Open"
  shows "\<exists>ls T n. run dstep S ls T \<and> closer T = Closed n \<and>
    time T \<le> max (time S) (last_call (time S) (closer S) + 1) \<and>
    (workers T = workers S \<or> workers T = map wake_worker (workers S))"
proof (cases "closer S")
  case (Begun timeout)
  define S1 where "S1 = S\<lparr>closer := Draining (time S + timeout)\<rparr>"
  have "dstep S Internal S1" unfolding S1_def by (rule close_deadline [OF Begun])
  with drain_closes [of S1 "time S + timeout"] Begun show ?thesis
    by (auto simp: S1_def intro: run_Cons)
next
  case (Draining deadline)
  with drain_closes [OF Draining] show ?thesis by auto
next
  case (DrainWait deadline)
  define S1 where "S1 = S\<lparr>closer := Draining deadline\<rparr>"
  have "dstep S Internal S1" unfolding S1_def by (rule drain_wake [OF DrainWait])
  with drain_closes [of S1 deadline] DrainWait show ?thesis by (auto simp: S1_def intro: run_Cons)
next
  case (Drained n)
  from notify_closes [OF this] Drained show ?thesis by force
next
  case (Closed n)
  then show ?thesis by (intro exI [of _ "[]"] exI [of _ S] exI [of _ n]) (simp add: run_start)
qed (use assms in simp)

subsection \<open>Where the code does less than it means to\<close>

text \<open>
  A panicked worker never gives its task back. The condition is stable, so the drain can
  then only end by its deadline.
\<close>

definition panic_inv :: "'task System \<Rightarrow> bool" where
  "panic_inv S \<longleftrightarrow> Panicked \<in> set (workers S)"

lemma Panicked_stays: "Panicked \<in> set ws \<Longrightarrow> i < length ws \<Longrightarrow> ws ! i \<noteq> Panicked \<Longrightarrow> Panicked \<in> set (ws[i := w])"
  by (metis in_set_conv_nth length_list_update nth_list_update_neq)

lemma Panicked_wake: "Panicked \<in> set ws \<Longrightarrow> Panicked \<in> wake_worker ` set ws"
  by (metis imageI wake_worker.simps(7))

interpretation panics: state_invariant dstep panic_inv
proof
  fix S T :: "'task System" and l
  assume inv: "panic_inv S" and "dstep S l T"
  from this(2) show "panic_inv T"
    by (cases rule: dstep.cases)
      (use inv in \<open>auto simp: panic_inv_def sections intro!: Panicked_stays Panicked_wake\<close>)
qed

lemma Panicked_busy: "Panicked \<in> set ws \<Longrightarrow> 0 < busy_count ws"
  unfolding busy_count_def by (metis (mono_tags, lifting) busy.simps(3) filter_empty_conv length_greater_0_conv)

text \<open>
  C32. A task that panics costs more than itself: its worker is gone and \<^verbatim>\<open>active\<close> stays
  positive for ever after, so every later \<^verbatim>\<open>close\<close> waits out its whole timeout, although the
  queue may be empty and no worker is running anything.
\<close>

theorem panic_makes_close_wait_out_its_deadline:
  assumes "run dstep (dispatcher_new n cap now) ls S" and "n < 2 ^ 64" and "Panicked \<in> set (workers S)"
    and "run dstep S ms T"
  shows "0 < unat (active (st T)) \<and>
    (\<forall>ts U. dstep T (Abandon ts) U \<longrightarrow> (\<exists>deadline. closer T = Draining deadline \<and> deadline < time T))"
proof -
  have "panic_inv T" using panics.keeps_run [OF assms(4)] assms(3) by (simp add: panic_inv_def)
  moreover have "active_inv T"
    by (rule actives.keeps_run [OF assms(4)]) (rule reachable_active_inv [OF assms(1,2)])
  ultimately have act: "0 < unat (active (st T))"
    by (simp add: panic_inv_def active_inv_def Panicked_busy)
  then show ?thesis by (auto elim!: dstep_AbandonE simp: drain_turn_None)
qed

text \<open>
  The race between a submission and \<^verbatim>\<open>close\<close>, as the states it passes through: both workers
  asleep, a task pushed and its \<^verbatim>\<open>notify_one\<close> still to come, the closing thread asleep in
  the drain, and the notification taken by the closing thread.
\<close>

definition race :: "'task list \<Rightarrow> bool \<Rightarrow> 'task worker list \<Rightarrow> closer \<Rightarrow> nat \<Rightarrow> 'task System" where
  "race ts acc ws c p =
     \<lparr>shared = \<lparr>capacity = QUEUE_CAPACITY,
                state = \<lparr>tasks = ts, accepting = acc, draining = True, active = 0\<rparr>,
                drop_logger = drop_logger_new DROP_LOG_INTERVAL 0\<rparr>,
      workers = ws, closer = c, pending = p, time = 0\<rparr>"

lemma race_new: "dispatcher_new WORKER_COUNT QUEUE_CAPACITY 0 = race [] True [Looping, Looping] Open 0"
  by (simp add: dispatcher_new_def shared_new_def race_def WORKER_COUNT_def numeral_2_eq_2)

lemma race_block:
  "dstep (race [] acc [Looping, w] c p) Worked (race [] acc [Waiting, w] c p)"
  "dstep (race [] acc [w, Looping] c p) Worked (race [] acc [w, Waiting] c p)"
  using work_block [of 0 "race [] acc [Looping, w] c p"] work_block [of 1 "race [] acc [w, Looping] c p"]
  by (auto simp: sections race_def set_worker_def set_state_def)

lemma race_submit: "dstep (race [] True ws c p) (Accept t []) (race [t] True ws c (p + 1))"
proof -
  have "submit 0 0 t (shared (race [] True ws c p)) = (True, None, shared (race [t] True ws c p))"
    by (simp add: submit_def race_def QUEUE_CAPACITY_def)
  from submit_accept [of "race [] True ws c p", simplified race_def, simplified, OF this [unfolded race_def, simplified]]
  show ?thesis by (simp add: race_def evicted_def QUEUE_CAPACITY_def)
qed

lemma race_close: "dstep (race ts True ws Open p) (Shut d) (race ts False ws (Begun d) p)"
  using close_start [of "race ts True ws Open p" _ d] by (simp add: sections race_def set_state_def)

lemma race_deadline: "dstep (race ts acc ws (Begun d) p) Internal (race ts acc ws (Draining d) p)"
  using close_deadline [of "race ts acc ws (Begun d) p" d] by (simp add: race_def)

lemma race_wait: "dstep (race [t] acc ws (Draining d) p) Internal (race [t] acc ws (DrainWait d) p)"
  using drain_wait [of "race [t] acc ws (Draining d) p" d d]
  by (simp add: race_def drain_turn_def checked_duration_since_def)

lemma race_notify: "dstep (race ts acc ws (DrainWait d) (p + 1)) Notified (race ts acc ws (Draining d) p)"
  using notify_one_closer [of "race ts acc ws (DrainWait d) (p + 1)" d] by (simp add: race_def)

lemmas race_steps = race_block race_submit race_close race_deadline race_wait race_notify

text \<open>
  C31. A wake-up can be lost during \<^verbatim>\<open>close\<close>: workers and the closing thread share one condition
  variable, and a submission notifies only one waiter, after it has released the lock. There
  is a run of a client's dispatcher in which an accepted task is in the queue, both workers
  are asleep, no notification is outstanding and the closing thread is in its timed wait:
  unless a worker wakes spuriously, the task waits for the deadline and is then abandoned,
  although two workers were idle all along.
\<close>

theorem close_can_lose_a_wakeup:
  "\<exists>ls S. run dstep (dispatcher_new WORKER_COUNT QUEUE_CAPACITY 0) ls S \<and>
     history accepted_by ls = [t] \<and> history taken_by ls = [] \<and>
     tasks (st S) = [t] \<and> workers S = [Waiting, Waiting] \<and> pending S = 0 \<and>
     closer S = DrainWait CLOSE_DRAIN_TIMEOUT"
proof -
  let ?d = CLOSE_DRAIN_TIMEOUT and ?ws = "[Waiting, Waiting]"
  let ?S = "race [t] False ?ws (DrainWait ?d) 0"
  have notify: "dstep (race [t] False ?ws (DrainWait ?d) 1) Notified (race [t] False ?ws (Draining ?d) 0)"
    using race_notify [of "[t]" False ?ws ?d 0] by simp
  have submit: "dstep (race [] True ?ws Open 0) (Accept t []) (race [t] True ?ws Open 1)"
    using race_submit [of ?ws Open 0 t] by simp
  have "run dstep (race [] True [Looping, Looping] Open 0)
      [Worked, Worked, Accept t [], Shut ?d, Internal, Internal, Notified, Internal] ?S"
    by (rule run_Cons race_block submit notify race_close race_deadline race_wait run_start)+
  then show ?thesis
    unfolding race_new by (intro exI conjI, assumption) (simp_all add: race_def)
qed

subsection \<open>Concrete runs\<close>

lemmas drun_Cons = run_Cons [where step = dstep]
lemmas drun_one = run_one [where step = dstep]

definition sample_labels :: "nat label list" where
  "sample_labels = [Worked, Worked, Accept 7 []]"

definition sample_state :: "nat System" where
  "sample_state = race [7] True [Waiting, Waiting] Open 1"

lemma sample_run: "run dstep (dispatcher_new WORKER_COUNT QUEUE_CAPACITY 0) sample_labels sample_state"
proof -
  have "dstep (race [] True [Waiting, Waiting] Open 0) (Accept 7 []) (race [7::nat] True [Waiting, Waiting] Open 1)"
    using race_submit [of "[Waiting, Waiting]" Open 0 "7::nat"] by simp
  then have "run dstep (race [] True [Looping, Looping] Open 0) [Worked, Worked, Accept 7 []]
      (race [7::nat] True [Waiting, Waiting] Open 1)"
    by (intro drun_Cons [OF race_block(1)] drun_Cons [OF race_block(2)] drun_one)
  then show ?thesis by (simp add: race_new sample_labels_def sample_state_def)
qed

theorem dispatcher_fifo_witness: "history accepted_by sample_labels = [] @ tasks (st sample_state)"
  using dispatcher_fifo [OF sample_run] by (simp add: sample_labels_def removed_by_def)

theorem active_counts_busy_workers_witness:
  "unat (active (st sample_state)) = busy_count (workers sample_state) \<and> busy_count (workers sample_state) \<le> WORKER_COUNT"
  by (rule active_counts_busy_workers [OF sample_run]) (simp add: WORKER_COUNT_def)

theorem no_lost_wakeup_while_open_witness:
  "length (tasks (st sample_state)) \<le> pending sample_state + looping_count (workers sample_state)"
  by (rule no_lost_wakeup_while_open [OF sample_run]) (simp_all add: sample_state_def race_def)

text \<open>Closing an idle dispatcher: the drain ends at once and abandons nothing.\<close>

definition idle_close :: "nat System" where
  "idle_close = race [] False [Looping, Looping] (Draining 5) 0"

definition idle_drained :: "nat System" where
  "idle_drained = set_state ((st idle_close)\<lparr>draining := False, tasks := []\<rparr>) idle_close\<lparr>closer := Drained 0\<rparr>"

lemma idle_close_run: "run dstep (dispatcher_new WORKER_COUNT QUEUE_CAPACITY 0) [Shut 5, Internal] idle_close"
  unfolding race_new idle_close_def
  by (rule drun_Cons [OF race_close drun_one [OF race_deadline]])

lemma idle_leave: "dstep idle_close (Abandon []) idle_drained"
proof -
  have "dstep idle_close (Abandon (tasks (st idle_close))) idle_drained"
    unfolding idle_drained_def
    by (rule drain_leave [of _ 5]) (simp_all add: idle_close_def race_def drain_turn_None drain_finish_def)
  then show ?thesis by (simp add: idle_close_def race_def)
qed

theorem close_abandons_only_after_deadline_witness:
  "closer idle_close = Draining 5 \<and> time idle_close \<le> 5 \<and> busy_count (workers idle_close) = 0"
  using close_abandons_only_after_deadline [OF idle_close_run _ idle_leave]
  by (simp add: WORKER_COUNT_def idle_close_def race_def)

theorem close_can_always_return_witness:
  "\<exists>ls T n. run dstep (race [7::nat] False [Waiting, Waiting] (DrainWait 5) 0) ls T \<and> closer T = Closed n \<and> time T \<le> 6"
  using close_can_always_return [of "race [7::nat] False [Waiting, Waiting] (DrainWait 5) 0"]
  by (auto simp: race_def)

text \<open>A task that panics on the first worker.\<close>

definition panic_taken :: "nat System" where
  "panic_taken =
     set_worker 0 (Running 7) (set_state \<lparr>tasks = [], accepting = True, draining = True, active = 1\<rparr>
       (race [7] True [Looping, Looping] Open 1))"

definition panic_state :: "nat System" where
  "panic_state = set_worker 0 Panicked panic_taken"

lemma panic_run:
  "run dstep (dispatcher_new WORKER_COUNT QUEUE_CAPACITY 0) [Accept 7 [], Take 7, Panic 7] panic_state"
proof -
  have "dstep (race [] True [Looping, Looping] Open 0) (Accept 7 []) (race [7::nat] True [Looping, Looping] Open 1)"
    using race_submit [of "[Looping, Looping]" Open 0 "7::nat"] by simp
  moreover have "dstep (race [7] True [Looping, Looping] Open 1) (Take 7) panic_taken"
    unfolding panic_taken_def by (rule work_take) (simp_all add: race_def sections)
  moreover have "dstep panic_taken (Panic 7) panic_state"
    unfolding panic_state_def by (rule work_panic) (simp_all add: panic_taken_def race_def)
  ultimately show ?thesis unfolding race_new by (blast intro: drun_Cons drun_one)
qed

theorem panic_makes_close_wait_out_its_deadline_witness: "0 < unat (active (st panic_state))"
  using panic_makes_close_wait_out_its_deadline [OF panic_run _ _ run_start]
  by (simp add: WORKER_COUNT_def panic_state_def panic_taken_def race_def)

end
