(* ===== verification/Dispatcher_Progress.thy ===== *)
theory Dispatcher_Progress
  imports Dispatcher_Properties
begin

text \<open>
  What the dispatcher achieves when its threads are scheduled: the steps of the workers and
  the pending notifications come to an end by themselves, and when they do the queue is
  empty. Spurious wake-ups are not needed for this, and panics are left out.
\<close>

text \<open>The steps of running tasks to their end: workers and pending notifications.\<close>

fun progress :: "'task label \<Rightarrow> bool" where
  "progress (Take _) = True"
| "progress (Finish _) = True"
| "progress Notified = True"
| "progress Worked = True"
| "progress _ = False"

text \<open>A run in which only these, the closing thread before it gives up, and the clock move.\<close>

abbreviation undisturbed_run :: "'task label list \<Rightarrow> bool" where
  "undisturbed_run \<equiv> list_all (\<lambda>l. progress l \<or> l = Internal)"

definition stuck :: "'task System \<Rightarrow> bool" where
  "stuck S \<longleftrightarrow> (\<forall>l T. dstep S l T \<longrightarrow> \<not> progress l)"

subsection \<open>Progress ends\<close>

text \<open>
  How many steps a worker may still take before it sleeps or is gone, where \<open>n\<close> is the number
  of workers it may wake with its \<^verbatim>\<open>notify_all\<close>.
\<close>

fun weight :: "nat \<Rightarrow> 'task worker \<Rightarrow> nat" where
  "weight n (Running _) = n + 4"
| "weight n Finished = n + 3"
| "weight n Notifying = n + 2"
| "weight n Looping = 1"
| "weight n _ = 0"

definition rank :: "'task System \<Rightarrow> nat" where
  "rank S =
     (let n = length (workers S)
      in (n + 4) * length (tasks (st S)) + sum_list (map (weight n) (workers S)) + 2 * pending S)"

lemma weight_wake: "weight n (wake_worker w) \<le> weight n w + 1"
  by (cases w) auto

lemma weights_wake: "sum_list (map (weight n) (map wake_worker ws)) \<le> sum_list (map (weight n) ws) + length ws"
proof (induction ws)
  case (Cons w ws)
  then show ?case using weight_wake [of n w] by simp
qed simp

lemmas weights_update = sum_list_update [of _ _ "weight n" for n]

lemma progress_rank:
  assumes "dstep S l T" and "progress l"
  shows "rank T < rank S"
  using assms
proof (cases rule: dstep.cases)
  case (notify_one_worker i)
  then show ?thesis
    using weights_update [of i "workers S" "length (workers S)" Looping] by (simp add: rank_def Let_def)
next
  case (work_take i t s)
  then show ?thesis
    using weights_update [of i "workers S" "length (workers S)" "Running t"]
    by (auto simp: rank_def Let_def sections)
next
  case (work_block i s)
  then show ?thesis
    using weights_update [of i "workers S" "length (workers S)" Waiting] by (simp add: rank_def Let_def sections)
next
  case (work_exit i s)
  then show ?thesis
    using weights_update [of i "workers S" "length (workers S)" Exited] by (simp add: rank_def Let_def sections)
next
  case (work_finish i t)
  then show ?thesis
    using weights_update [of i "workers S" "length (workers S)" Finished] by (simp add: rank_def Let_def)
next
  case (work_decrement i)
  then show ?thesis
    using weights_update [of i "workers S" "length (workers S)" Notifying] by (simp add: rank_def Let_def sections)
next
  case (work_notify i)
  then show ?thesis
    using weights_update [of i "workers S" "length (workers S)" Looping]
      weights_wake [of "length (workers S)" "(workers S)[i := Looping]"] by (simp add: rank_def Let_def)
qed (simp_all add: rank_def Let_def)

interpretation working: ranked_steps dstep progress "\<lambda>l. l = Internal" rank
proof
  fix S T :: "'task System" and l
  assume "dstep S l T" and "l = Internal"
  then show "rank T \<le> rank S" by (cases rule: dstep.cases) (auto simp: rank_def)
qed (rule progress_rank)

subsection \<open>Where progress ends\<close>

lemma stuck_pending: "stuck S \<Longrightarrow> pending S = 0"
proof (rule ccontr)
  assume stuck: "stuck S" and "pending S \<noteq> 0"
  then have p: "0 < pending S" by simp
  consider i where "i < length (workers S)" "workers S ! i = Waiting" | d where "closer S = DrainWait d"
    | "Waiting \<notin> set (workers S)" "wake_closer (closer S) = closer S"
    by (cases "closer S") (auto simp: in_set_conv_nth)
  then have "\<exists>T. dstep S Notified T"
    by cases (use p in \<open>blast intro: notify_one_worker notify_one_closer notify_one_nobody\<close>)+
  with stuck show False by (auto simp: stuck_def)
qed

lemma stuck_workers:
  assumes "stuck S" and "w \<in> set (workers S)"
  shows "w = Waiting \<or> w = Exited \<or> w = Panicked"
proof -
  obtain i where i: "i < length (workers S)" "workers S ! i = w"
    using assms(2) by (auto simp: in_set_conv_nth)
  obtain p s where poll: "work_poll (st S) = (p, s)" by fastforce
  have no: "\<not> dstep S l T" if "progress l" for l T using that assms(1) by (auto simp: stuck_def)
  show ?thesis
  proof (cases w)
    case Looping
    with i poll no show ?thesis by (cases p) (force dest: work_take work_block work_exit)+
  next
    case (Running t)
    with i no [of "Finish t"] show ?thesis by (auto dest: work_finish)
  next
    case Finished
    with i no [of Worked] show ?thesis by (auto dest: work_decrement)
  next
    case Notifying
    with i no [of Worked] show ?thesis by (auto dest: work_notify)
  qed auto
qed

lemma stuck_nobody_runs: "stuck S \<Longrightarrow> running_tasks (workers S) = []"
  using stuck_workers [of S] by (fastforce simp: running_tasks_def)

lemma stuck_looping: "stuck S \<Longrightarrow> looping_count (workers S) = 0"
  using stuck_workers [of S] by (fastforce simp: looping_count_def filter_empty_conv)

text \<open>A worker returns only once the drain is over.\<close>

definition exit_inv :: "'task System \<Rightarrow> bool" where
  "exit_inv S \<longleftrightarrow> (Exited \<in> set (workers S) \<longrightarrow> \<not> draining (st S))"

lemma Exited_wake [simp]: "Exited \<in> wake_worker ` W \<longleftrightarrow> Exited \<in> W"
proof -
  have "Exited = wake_worker w \<longleftrightarrow> w = Exited" for w :: "'a worker" by (cases w) auto
  then show ?thesis by (metis image_iff)
qed

interpretation exits: state_invariant dstep exit_inv
proof
  fix S T :: "'task System" and l
  assume inv: "exit_inv S" and "dstep S l T"
  from this(2) show "exit_inv T"
  proof (cases rule: dstep.cases)
    case (submit_accept now' t warned sh)
    then show ?thesis using inv submit_fields [OF submit_accept(3)] by (auto simp: exit_inv_def)
  next
    case (submit_refuse now' t warned sh)
    then show ?thesis using inv submit_fields [OF submit_refuse(3)] by (auto simp: exit_inv_def)
  qed (use inv in \<open>auto simp: exit_inv_def sections dest!: mem_updateD\<close>)
qed

definition live :: "'task worker list \<Rightarrow> bool" where
  "live ws \<longleftrightarrow> (\<exists>w\<in>set ws. w \<noteq> Panicked)"

lemma live_update [simp]: "i < length ws \<Longrightarrow> w \<noteq> Panicked \<Longrightarrow> live (ws[i := w])"
  unfolding live_def by (meson set_update_memI)

lemma live_wake [simp]: "live (map wake_worker ws) = live ws"
proof -
  have "wake_worker w = Panicked \<longleftrightarrow> w = Panicked" for w :: "'a worker" by (cases w) auto
  then show ?thesis by (simp add: live_def)
qed

text \<open>
  The end of progress: where the wake-up law holds and some worker has not panicked, nothing
  is left in the queue.
\<close>

lemma stuck_queue_empty:
  assumes "stuck S" and "exit_inv S" and "draining (st S)" and "live (workers S)"
    and "Waiting \<in> set (workers S) \<Longrightarrow> length (tasks (st S)) \<le> pending S + looping_count (workers S)"
  shows "tasks (st S) = []"
proof -
  have "Waiting \<in> set (workers S)"
    using assms(2,3,4) stuck_workers [OF assms(1)] by (auto simp: exit_inv_def live_def)
  with assms(5) show ?thesis by (simp add: stuck_pending [OF assms(1)] stuck_looping [OF assms(1)])
qed

subsection \<open>The run up to there\<close>

lemma undisturbed_history:
  "undisturbed_run ms \<Longrightarrow>
     history accepted_by ms = [] \<and> history removed_by ms = history taken_by ms \<and> history panicked_by ms = []"
proof (induction ms)
  case (Cons l ms)
  then show ?case by (cases l) (auto simp: removed_by_def)
qed simp

text \<open>What an undisturbed run has done once nothing is queued and nobody runs anything.\<close>

lemma undisturbed_result:
  assumes "run dstep (dispatcher_new n cap now) ls S" and "run dstep S ms T" and "undisturbed_run ms"
    and "tasks (st T) = []" and "running_tasks (workers T) = []"
  shows "history taken_by ms = tasks (st S)"
    and "mset (history finished_by ms) = mset (running_tasks (workers S)) + mset (tasks (st S))"
proof -
  note here = assms(1) and there = run_append [OF assms(2,1)]
  note labels = undisturbed_history [OF assms(3)]
  show taken: "history taken_by ms = tasks (st S)"
    using reachable_fifo [OF here] reachable_fifo [OF there] labels assms(4) by simp
  show "mset (history finished_by ms) = mset (running_tasks (workers S)) + mset (tasks (st S))"
    using reachable_executions [OF here] reachable_executions [OF there] labels assms(5) taken
    by (simp add: ac_simps)
qed

text \<open>Along an undisturbed run the dispatcher stays in its phase and its workers stay alive.\<close>

lemma undisturbed_live: "dstep S l T \<Longrightarrow> progress l \<or> l = Internal \<Longrightarrow> live (workers S) \<Longrightarrow> live (workers T)"
  by (cases rule: dstep.cases) auto

lemma undisturbed_phase:
  "dstep S l T \<Longrightarrow> progress l \<or> l = Internal \<Longrightarrow>
     (closer T = Open \<longleftrightarrow> closer S = Open) \<and> (drained (closer T) \<longleftrightarrow> drained (closer S))"
  by (cases rule: dstep.cases) auto

lemma undisturbed_keeps:
  "run dstep S ms T \<Longrightarrow> undisturbed_run ms \<Longrightarrow>
     (live (workers S) \<longrightarrow> live (workers T)) \<and> (closer T = Open \<longleftrightarrow> closer S = Open) \<and>
     (drained (closer T) \<longleftrightarrow> drained (closer S))"
proof (induction rule: run.induct)
  case (run_step S ls T l U)
  then show ?case using undisturbed_live [of T l U] undisturbed_phase [of T l U] by simp
qed simp

lemma new_exit_inv: "exit_inv (dispatcher_new n cap now)"
  by (simp add: exit_inv_def dispatcher_new_def)

lemmas reachable_exit_inv = exits.keeps_run [OF _ new_exit_inv]

text \<open>
  C9. An open dispatcher works off its queue: take any reachable state in which it is open and
  some worker has not panicked. However workers and notifications are scheduled from there,
  with time passing and without new submissions, panics or spurious wake-ups, they take at
  most \<open>rank S\<close> steps; whenever they can take no further step, the queue is empty, the queued
  tasks were started in order, and they and the tasks already running have ended. And some
  schedule does get there.
\<close>

theorem open_dispatcher_works_off_its_queue:
  assumes "run dstep (dispatcher_new n cap now) ls S" and "closer S = Open" and "live (workers S)"
  shows "(\<forall>ms T. run dstep S ms T \<longrightarrow> undisturbed_run ms \<longrightarrow>
      length (filter progress ms) \<le> rank S \<and>
      (stuck T \<longrightarrow> tasks (st T) = [] \<and> history taken_by ms = tasks (st S) \<and>
         mset (history finished_by ms) = mset (running_tasks (workers S)) + mset (tasks (st S)))) \<and>
    (\<exists>ms T. run dstep S ms T \<and> list_all progress ms \<and> stuck T)"
proof (intro conjI allI impI)
  fix ms T
  assume run: "run dstep S ms T" and ms: "undisturbed_run ms"
  show "length (filter progress ms) \<le> rank S" using working.rank_run [OF run ms] by simp
  assume stuck: "stuck T"
  have there: "run dstep (dispatcher_new n cap now) (ls @ ms) T" by (rule run_append [OF run assms(1)])
  have T: "live (workers T)" "closer T = Open" using undisturbed_keeps [OF run ms] assms(2,3) by simp_all
  with reachable_phase_inv [OF there] have "draining (st T)" by (simp add: phase_inv_def)
  with T show empty: "tasks (st T) = []"
    using reachable_wake_inv [OF there]
    by (intro stuck_queue_empty [OF stuck reachable_exit_inv [OF there]]) (auto simp: wake_inv_def)
  note result = undisturbed_result [OF assms(1) run ms empty stuck_nobody_runs [OF stuck]]
  show "history taken_by ms = tasks (st S)" by (rule result(1))
  show "mset (history finished_by ms) = mset (running_tasks (workers S)) + mset (tasks (st S))" by (rule result(2))
next
  show "\<exists>ms T. run dstep S ms T \<and> list_all progress ms \<and> stuck T"
    unfolding stuck_def by (rule working.maximal_run)
qed

subsection \<open>A close that no submission races with\<close>

text \<open>
  The wake-up law holds to the end of a close that begins with no notification outstanding.
\<close>

definition quiet_inv :: "'task System \<Rightarrow> bool" where
  "quiet_inv S \<longleftrightarrow> \<not> accepting (st S) \<and> pending S = 0 \<and>
     (Waiting \<in> set (workers S) \<longrightarrow> length (tasks (st S)) \<le> looping_count (workers S))"

interpretation quiet: state_invariant dstep quiet_inv
proof
  fix S T :: "'task System" and l
  assume inv: "quiet_inv S" and "dstep S l T"
  from this(2) show "quiet_inv T"
  proof (cases rule: dstep.cases)
    case (submit_accept now' t warned sh)
    then show ?thesis using inv submit_fields(1) [OF submit_accept(3)] by (simp add: quiet_inv_def)
  next
    case (submit_refuse now' t warned sh)
    then show ?thesis using inv by (simp add: quiet_inv_def submit_refused)
  next
    case (work_take i t s)
    then show ?thesis
      using inv looping_count_update [of i "workers S" "Running t"]
      by (auto simp: quiet_inv_def sections dest!: mem_updateD)
  next
    case (work_spurious i)
    then show ?thesis
      using inv looping_count_update [of i "workers S" Looping]
      by (auto simp: quiet_inv_def dest!: mem_updateD)
  next
    case (work_finish i t)
    then show ?thesis
      using inv looping_count_update [of i "workers S" Finished]
      by (auto simp: quiet_inv_def dest!: mem_updateD)
  next
    case (work_panic i t)
    then show ?thesis
      using inv looping_count_update [of i "workers S" Panicked]
      by (auto simp: quiet_inv_def dest!: mem_updateD)
  next
    case (work_decrement i)
    then show ?thesis
      using inv looping_count_update [of i "workers S" Notifying]
      by (auto simp: quiet_inv_def sections dest!: mem_updateD)
  qed (use inv in \<open>auto simp: quiet_inv_def sections\<close>)
qed

lemma Panicked_wake_iff [simp]: "Panicked \<in> wake_worker ` W \<longleftrightarrow> Panicked \<in> W"
proof -
  have "Panicked = wake_worker w \<longleftrightarrow> w = Panicked" for w :: "'a worker" by (cases w) auto
  then show ?thesis by (metis image_iff)
qed

lemma undisturbed_no_panic:
  "run dstep S ms T \<Longrightarrow> undisturbed_run ms \<Longrightarrow> Panicked \<notin> set (workers S) \<Longrightarrow> Panicked \<notin> set (workers T)"
proof (induction rule: run.induct)
  case (run_step S ls T l U)
  then have "dstep T l U" "progress l \<or> l = Internal" "Panicked \<notin> set (workers T)" by simp_all
  then show ?case by (cases rule: dstep.cases) (auto dest!: mem_updateD)
qed simp

inductive_cases dstep_ShutE: "dstep S (Shut timeout) T"

text \<open>
  A close that no submission races with drains everything: if a healthy dispatcher is
  closed when no submitter is between its unlock and its \<^verbatim>\<open>notify_one\<close>, then workers and the
  closing thread, however scheduled before the deadline, take at most \<open>rank S'\<close> steps of work,
  and when no more are possible every task queued at the close has been run, in order, the
  drain ends at its next turn whatever the time, and it abandons nothing.
\<close>

lemma quiet_close:
  assumes "run dstep (dispatcher_new n cap now) ls S" and "0 < n" and "n < 2 ^ 64"
    and "pending S = 0" and "Panicked \<notin> set (workers S)"
    and "dstep S (Shut timeout) S'" and "run dstep S' ms T" and "undisturbed_run ms"
  shows "length (filter progress ms) \<le> rank S' \<and>
    (stuck T \<longrightarrow> history taken_by ms = tasks (st S) \<and>
       mset (history finished_by ms) = mset (running_tasks (workers S)) + mset (tasks (st S)) \<and>
       drain_turn deadline at (st T) = None \<and> fst (drain_finish (st T)) = 0)"
proof -
  have S: "accepting (st S)" and S': "S' = set_state ((st S)\<lparr>accepting := False\<rparr>) S\<lparr>closer := Begun timeout\<rparr>"
    using assms(6) by (auto elim!: dstep_ShutE simp: sections)
  have "closer S = Open" using reachable_phase_inv [OF assms(1)] S by (simp add: phase_inv_def)
  then have "quiet_inv S'"
    using reachable_wake_inv [OF assms(1)] assms(4) by (simp add: S' quiet_inv_def wake_inv_def)
  note quiet = quiet.keeps_run [OF assms(7) this]
  note here = run_step [OF assms(1,6)]
  note there = run_append [OF assms(7) here]
  have "length (workers S) = n" using run_constants [OF assms(1)] by (simp add: dispatcher_new_def)
  with assms(2,5) have "live (workers S)" unfolding live_def by (metis nth_mem)
  then have "live (workers S')" by (simp add: S')
  then have T: "live (workers T)" "\<not> drained (closer T)"
    using undisturbed_keeps [OF assms(7,8)] by (simp_all add: S')
  have healthy: "Panicked \<notin> set (workers T)"
    using undisturbed_no_panic [OF assms(7,8)] assms(5) by (simp add: S')
  show ?thesis
  proof (intro conjI impI)
    show "length (filter progress ms) \<le> rank S'" using working.rank_run [OF assms(7,8)] by simp
    assume stuck: "stuck T"
    from T reachable_phase_inv [OF there] have "draining (st T)" by (simp add: phase_inv_def)
    then have empty: "tasks (st T) = []"
      using quiet T(1)
      by (intro stuck_queue_empty [OF stuck reachable_exit_inv [OF there]]) (auto simp: quiet_inv_def)
    note result = undisturbed_result [OF here assms(7,8) empty stuck_nobody_runs [OF stuck]]
    show "history taken_by ms = tasks (st S)" using result(1) by (simp add: S')
    show "mset (history finished_by ms) = mset (running_tasks (workers S)) + mset (tasks (st S))"
      using result(2) by (simp add: S')
    have "busy_count (workers T) = 0"
      using stuck_workers [OF stuck] healthy by (fastforce simp: busy_count_def filter_empty_conv)
    then have "active (st T) = 0"
      using reachable_active_inv [OF there assms(3)] by (simp add: active_inv_def unat_eq_0)
    then show "drain_turn deadline at (st T) = None" by (simp add: drain_turn_None empty)
    show "fst (drain_finish (st T)) = 0" by (simp add: drain_finish_def empty)
  qed
qed

subsection \<open>Concrete runs\<close>

lemma progress_undisturbed: "list_all progress ms \<Longrightarrow> undisturbed_run ms"
  by (simp add: list_all_iff)

theorem open_dispatcher_works_off_its_queue_witness:
  "\<exists>ms T. run dstep sample_state ms T \<and> stuck T \<and> tasks (st T) = [] \<and> history taken_by ms = [7]"
proof -
  have "closer sample_state = Open" "live (workers sample_state)" "tasks (st sample_state) = [7]"
    by (simp_all add: sample_state_def race_def live_def)
  with open_dispatcher_works_off_its_queue [OF sample_run] show ?thesis
    by (metis progress_undisturbed)
qed

end
