(* ===== verification/Client_Threads.thy ===== *)
theory Client_Threads
  imports Client Dispatcher_Progress
begin

text \<open>
  \<^verbatim>\<open>src/rust/src/client.rs\<close> as the threads of a process share it: any number of asynchronous
  callers, any number of calls of \<^verbatim>\<open>close\<close> (one of them by \<^verbatim>\<open>drop\<close>), and the dispatcher of
  \<^verbatim>\<open>Dispatcher_Threads\<close> underneath. A step is one access to shared state: the load of the
  \<^verbatim>\<open>closed\<close> flag with the checks on immutable data that follow it, the \<^verbatim>\<open>swap\<close>, the signal,
  or a step of the dispatcher.
\<close>

text \<open>
  Where the one call of \<^verbatim>\<open>close\<close> that wins the \<^verbatim>\<open>swap\<close> is: none has yet, past the swap, past
  the signal, in \<^verbatim>\<open>dispatcher.close\<close> or returned.
\<close>

datatype closing = NotClosing | Swapped | Signalled | Handed

record ClientSystem =
  cl_inner :: Inner
  cl_closed :: bool
  cl_closing :: closing
  cl_callers :: "Task list" \<comment> \<open>callers past their checks, with the task they will submit\<close>
  cl_dispatcher :: "Task System"

definition client_start :: "Inner \<Rightarrow> instant \<Rightarrow> ClientSystem" where
  "client_start inn now =
     \<lparr>cl_inner = inn, cl_closed = False, cl_closing = NotClosing, cl_callers = [],
      cl_dispatcher = dispatcher_new WORKER_COUNT QUEUE_CAPACITY now\<rparr>"

text \<open>What one call sees of the client.\<close>

definition client_of :: "ClientSystem \<Rightarrow> Task IncidentClient" where
  "client_of C = \<lparr>inner = cl_inner C, dispatcher = shared (cl_dispatcher C), closed = cl_closed C\<rparr>"

datatype clabel =
    Checked Task
  | Rejected "unit IncidentError"
  | CloseWon
  | CloseLost
  | Signal
  | Disp "Task label"

fun background :: "'task label \<Rightarrow> bool" where
  "background (Accept _ _) = False"
| "background (Refuse _) = False"
| "background (Shut _) = False"
| "background _ = True"

inductive cstep :: "ClientSystem \<Rightarrow> clabel \<Rightarrow> ClientSystem \<Rightarrow> bool" where
  async_check:
    "post_checks (client_of C) request = (Inr () :: (unit, unit IncidentError) result) \<Longrightarrow>
     t = \<lparr>t_request = request, t_service_key = in_service_key (cl_inner C)\<rparr> \<Longrightarrow>
     cstep C (Checked t) (C\<lparr>cl_callers := t # cl_callers C\<rparr>)"
| async_reject:
    "post_checks (client_of C) request = Inl e \<Longrightarrow> cstep C (Rejected e) C"
| routed_check:
    "routing_checks (client_of C) request = (Inr () :: (unit, unit IncidentError) result) \<Longrightarrow>
     t = \<lparr>t_request = request, t_service_key = None\<rparr> \<Longrightarrow>
     cstep C (Checked t) (C\<lparr>cl_callers := t # cl_callers C\<rparr>)"
| routed_reject:
    "routing_checks (client_of C) request = Inl e \<Longrightarrow> cstep C (Rejected e) C"
| async_accepted:
    "t \<in> set (cl_callers C) \<Longrightarrow> dstep (cl_dispatcher C) (Accept t ev) D \<Longrightarrow>
     cstep C (Disp (Accept t ev)) (C\<lparr>cl_callers := remove1 t (cl_callers C), cl_dispatcher := D\<rparr>)"
| async_refused:
    "t \<in> set (cl_callers C) \<Longrightarrow> dstep (cl_dispatcher C) (Refuse t) D \<Longrightarrow>
     cstep C (Disp (Refuse t)) (C\<lparr>cl_callers := remove1 t (cl_callers C), cl_dispatcher := D\<rparr>)"
| close_won:
    "close_swap (client_of C) = (False, c) \<Longrightarrow>
     cstep C CloseWon (C\<lparr>cl_closed := closed c, cl_closing := Swapped\<rparr>)"
| close_lost:
    "close_swap (client_of C) = (True, c) \<Longrightarrow>
     cstep C CloseLost (C\<lparr>cl_closed := closed c\<rparr>)"
| close_signalled:
    "cl_closing C = Swapped \<Longrightarrow>
     cstep C Signal (C\<lparr>cl_inner := close_signal (cl_inner C), cl_closing := Signalled\<rparr>)"
| close_dispatcher:
    "cl_closing C = Signalled \<Longrightarrow> dstep (cl_dispatcher C) (Shut CLOSE_DRAIN_TIMEOUT) D \<Longrightarrow>
     cstep C (Disp (Shut CLOSE_DRAIN_TIMEOUT)) (C\<lparr>cl_closing := Handed, cl_dispatcher := D\<rparr>)"
| dispatcher_step:
    "dstep (cl_dispatcher C) l D \<Longrightarrow> background l \<Longrightarrow> cstep C (Disp l) (C\<lparr>cl_dispatcher := D\<rparr>)"

inductive_cases cstep_RefusedE: "cstep C (Disp (Refuse t)) C'"

text \<open>A caller's step is \<open>client_submit\<close> of \<^verbatim>\<open>Client\<close> on what the caller sees.\<close>

lemma accepted_is_client_submit:
  assumes "dstep D (Accept t ev) D'"
  shows "\<exists>now'. client_submit (time D) now' (t_request t) (t_service_key t)
      \<lparr>inner = inn, dispatcher = shared D, closed = b\<rparr> =
    (Inr (), \<lparr>inner = inn, dispatcher = shared D', closed = b\<rparr>)"
proof -
  obtain now' warned where "submit (time D) now' t (shared D) = (True, warned, shared D')"
    using assms by (auto elim!: dstep_AcceptE)
  then show ?thesis by (intro exI [of _ now'], cases t) (simp add: client_submit_def)
qed

lemma refused_is_client_submit:
  assumes "dstep D (Refuse t) D'"
  shows "\<exists>now'. client_submit (time D) now' (t_request t) (t_service_key t)
      \<lparr>inner = inn, dispatcher = shared D, closed = b\<rparr> =
    (Inl ClientClosed, \<lparr>inner = inn, dispatcher = shared D', closed = b\<rparr>)"
proof -
  obtain now' warned where "submit (time D) now' t (shared D) = (False, warned, shared D')"
    using assms by (auto elim!: dstep_RefuseE)
  then show ?thesis by (intro exI [of _ now'], cases t) (simp add: client_submit_def)
qed

subsection \<open>The order of a close\<close>

lemma accepting_background: "dstep S l T \<Longrightarrow> background l \<Longrightarrow> accepting (st T) = accepting (st S)"
  by (cases rule: dstep.cases) (auto simp: sections)

lemma accepting_submit: "dstep S (Accept t ev) T \<or> dstep S (Refuse t) T \<Longrightarrow> accepting (st T) = accepting (st S)"
  by (auto elim!: dstep_AcceptE dstep_RefuseE dest: submit_fields(3))

definition close_inv :: "ClientSystem \<Rightarrow> bool" where
  "close_inv C \<longleftrightarrow>
     (cl_closed C \<longleftrightarrow> cl_closing C \<noteq> NotClosing) \<and>
     (signalled (interrupt (cl_inner C)) \<longleftrightarrow> cl_closing C = Signalled \<or> cl_closing C = Handed) \<and>
     (accepting (st (cl_dispatcher C)) \<longleftrightarrow> cl_closing C \<noteq> Handed)"

interpretation close_order: state_invariant cstep close_inv
proof
  fix C C' :: ClientSystem and l
  assume inv: "close_inv C" and "cstep C l C'"
  from this(2) show "close_inv C'"
  proof (cases rule: cstep.cases)
    case (async_accepted t ev D)
    then show ?thesis using inv accepting_submit [of "cl_dispatcher C" t ev D] by (simp add: close_inv_def)
  next
    case (async_refused t D)
    then show ?thesis using inv accepting_submit [of "cl_dispatcher C" t _ D] by (simp add: close_inv_def)
  next
    case (close_dispatcher D)
    then show ?thesis using inv by (auto simp: close_inv_def sections elim!: dstep_ShutE)
  next
    case (dispatcher_step l D)
    then show ?thesis using inv accepting_background [of "cl_dispatcher C" l D] by (simp add: close_inv_def)
  qed (use inv in \<open>auto simp: close_inv_def close_swap_def close_signal_def signal_def client_of_def\<close>)
qed

lemma client_start_close_inv: "\<not> signalled (interrupt inn) \<Longrightarrow> close_inv (client_start inn now)"
  by (simp add: close_inv_def client_start_def dispatcher_new_def shared_new_def)

lemmas reachable_close_inv = close_order.keeps_run [OF _ client_start_close_inv]

text \<open>
  C8. The signal comes before the drain: in every reachable state, a dispatcher that has
  stopped admitting work belongs to a client whose \<^verbatim>\<open>closed\<close> flag is set and whose interrupt
  is signalled, so no worker can start or continue a backoff while \<^verbatim>\<open>close\<close> waits for it; and
  a caller that passed its check is told \<^verbatim>\<open>ClientClosed\<close> only then.
\<close>

theorem signal_precedes_drain:
  assumes "run cstep (client_start inn now) ls C" and "\<not> signalled (interrupt inn)"
  shows "(\<not> accepting (st (cl_dispatcher C)) \<longrightarrow> cl_closed C \<and> signalled (interrupt (cl_inner C))) \<and>
    (\<forall>t C'. cstep C (Disp (Refuse t)) C' \<longrightarrow> cl_closed C \<and> signalled (interrupt (cl_inner C)))"
proof -
  have inv: "close_inv C" by (rule reachable_close_inv [OF assms])
  have "\<not> accepting (st (cl_dispatcher C))" if "cstep C (Disp (Refuse t)) C'" for t C'
    using that by (auto elim!: cstep_RefusedE dstep_RefuseE dest!: submit_fields(1))
  with inv show ?thesis by (auto simp: close_inv_def)
qed

subsection \<open>Closing once\<close>

fun won_by :: "clabel \<Rightarrow> nat" where
  "won_by CloseWon = 1"
| "won_by _ = 0"

fun shut_by :: "clabel \<Rightarrow> nat" where
  "shut_by (Disp (Shut _)) = 1"
| "shut_by _ = 0"

definition once_inv :: "clabel list \<Rightarrow> ClientSystem \<Rightarrow> bool" where
  "once_inv ls C \<longleftrightarrow>
     (cl_closed C \<longleftrightarrow> cl_closing C \<noteq> NotClosing) \<and>
     sum_list (map won_by ls) = of_bool (cl_closed C) \<and>
     sum_list (map shut_by ls) = of_bool (cl_closing C = Handed)"

lemma shut_by_background: "background l \<Longrightarrow> shut_by (Disp l) = 0"
  by (cases l) auto

interpretation once: trace_invariant cstep "\<lambda>C. \<not> cl_closed C \<and> cl_closing C = NotClosing" once_inv
proof
  fix C :: ClientSystem
  assume "\<not> cl_closed C \<and> cl_closing C = NotClosing"
  then show "once_inv [] C" by (simp add: once_inv_def)
next
  fix ls l and C C' :: ClientSystem
  assume inv: "once_inv ls C" and "cstep C l C'"
  from this(2) show "once_inv (ls @ [l]) C'"
    by (cases rule: cstep.cases)
      (use inv in \<open>auto simp: once_inv_def close_swap_def client_of_def shut_by_background\<close>)
qed

text \<open>
  \<^verbatim>\<open>close\<close> is idempotent under concurrency: however many threads call it (and \<^verbatim>\<open>drop\<close> calls
  it once more), at most one call gets past the \<^verbatim>\<open>swap\<close> and at most one reaches the
  dispatcher; every other call returns at once and changes nothing.
\<close>

lemma close_runs_once:
  assumes "run cstep (client_start inn now) ls C"
  shows "sum_list (map won_by ls) \<le> 1 \<and> sum_list (map shut_by ls) \<le> sum_list (map won_by ls) \<and>
    (\<forall>C'. cstep C CloseLost C' \<longrightarrow> C' = C \<and> sum_list (map won_by ls) = 1)"
proof -
  have inv: "once_inv ls C" by (rule once.inv_run [OF assms]) (simp add: client_start_def)
  have "C' = C \<and> cl_closed C" if "cstep C CloseLost C'" for C'
    using that by (cases rule: cstep.cases) (auto simp: close_swap_def client_of_def)
  with inv show ?thesis by (auto simp: once_inv_def)
qed

subsection \<open>The client's dispatcher runs as a dispatcher\<close>

fun dlabel :: "clabel \<Rightarrow> Task label list" where
  "dlabel (Disp l) = [l]"
| "dlabel _ = []"

abbreviation dlabels :: "clabel list \<Rightarrow> Task label list" where
  "dlabels ls \<equiv> concat (map dlabel ls)"

interpretation projection:
  trace_invariant cstep "\<lambda>C. cl_dispatcher C = D" "\<lambda>ls C. run dstep D (dlabels ls) (cl_dispatcher C)"
  for D :: "Task System"
proof
  fix C assume "cl_dispatcher C = D"
  then show "run dstep D (dlabels []) (cl_dispatcher C)" by (simp add: run_start)
next
  fix ls l and C C' :: ClientSystem
  assume "run dstep D (dlabels ls) (cl_dispatcher C)" and "cstep C l C'"
  from this(2,1) show "run dstep D (dlabels (ls @ [l])) (cl_dispatcher C')"
    by (cases rule: cstep.cases) (auto intro: run_step)
qed

lemma client_run_projects:
  assumes "run cstep (client_start inn now) ls C"
  shows "run dstep (dispatcher_new WORKER_COUNT QUEUE_CAPACITY now) (dlabels ls) (cl_dispatcher C)"
  using projection.inv_run [OF assms] by (simp add: client_start_def)

subsection \<open>What becomes of an asynchronous post\<close>

fun checked_by :: "clabel \<Rightarrow> Task list" where
  "checked_by (Checked t) = [t]"
| "checked_by _ = []"

definition callers_inv :: "Task list \<Rightarrow> clabel list \<Rightarrow> ClientSystem \<Rightarrow> bool" where
  "callers_inv cs ls C \<longleftrightarrow>
     mset cs + mset (concat (map checked_by ls)) =
       mset (cl_callers C) + mset (history refused_by (dlabels ls)) + mset (history accepted_by (dlabels ls))"

lemma background_no_submit: "background l \<Longrightarrow> accepted_by l = [] \<and> refused_by l = []"
  by (cases l) auto

interpretation callers: trace_invariant cstep "\<lambda>C. cl_callers C = cs" "callers_inv cs" for cs :: "Task list"
proof
  fix C :: ClientSystem
  assume "cl_callers C = cs"
  then show "callers_inv cs [] C" by (simp add: callers_inv_def)
next
  fix ls l and C C' :: ClientSystem
  assume inv: "callers_inv cs ls C" and "cstep C l C'"
  from this(2) show "callers_inv cs (ls @ [l]) C'"
    by (cases rule: cstep.cases) (use inv in \<open>auto simp: callers_inv_def background_no_submit\<close>)
qed

text \<open>
  C1. Every asynchronous post is accounted for: counted with multiplicity, the calls that
  passed their checks are those still on their way to the queue, those told \<^verbatim>\<open>ClientClosed\<close>,
  and those told success, each of which is exactly one of evicted by newer incidents,
  delivered or failed (its task ended), lost to a panic, abandoned by \<^verbatim>\<open>close\<close>, being
  delivered, or queued.
\<close>

theorem async_posts_are_accounted_for:
  assumes "run cstep (client_start inn now) ls C"
  shows "mset (concat (map checked_by ls)) =
    mset (cl_callers C) + mset (history refused_by (dlabels ls)) +
    mset (history evicted_by (dlabels ls)) + mset (history finished_by (dlabels ls)) +
    mset (history panicked_by (dlabels ls)) + mset (history abandoned_by (dlabels ls)) +
    mset (running_tasks (workers (cl_dispatcher C))) + mset (tasks (st (cl_dispatcher C)))"
proof -
  note run = client_run_projects [OF assms]
  have "callers_inv [] ls C" by (rule callers.inv_run [OF assms]) (simp add: client_start_def)
  then show ?thesis
    using reachable_fifo [OF run] reachable_executions [OF run]
    by (simp add: callers_inv_def mset_history_removed)
qed

definition closed_inv :: "ClientSystem \<Rightarrow> bool" where
  "closed_inv C \<longleftrightarrow> cl_closed C"

interpretation stays_closed: state_invariant cstep closed_inv
proof
  fix C C' :: ClientSystem and l
  assume "closed_inv C" and "cstep C l C'"
  from this(2,1) show "closed_inv C'"
    by (cases rule: cstep.cases) (auto simp: closed_inv_def close_swap_def)
qed

lemma closed_checks_nothing: "cstep C l C' \<Longrightarrow> cl_closed C \<Longrightarrow> checked_by l = []"
  by (cases rule: cstep.cases)
    (auto simp: post_checks_def routing_checks_def ensure_open_def client_of_def)

text \<open>
  C18. No post slips in after \<^verbatim>\<open>close\<close>: once the flag is set no further call passes its checks,
  and the only tasks accepted from then on are those of calls that had already passed them;
  each of these is accepted, refused, or still to be submitted.
\<close>

theorem only_checked_calls_race_with_close:
  assumes "run cstep C ms C'" and "cl_closed C"
  shows "concat (map checked_by ms) = [] \<and>
    mset (cl_callers C) = mset (cl_callers C') + mset (history refused_by (dlabels ms)) +
      mset (history accepted_by (dlabels ms))"
proof -
  have none: "concat (map checked_by ms) = []"
    using assms
  proof (induction rule: run.induct)
    case (run_step s ls t l u)
    then have "closed_inv t" using stays_closed.keeps_run by (auto simp: closed_inv_def)
    with run_step show ?case using closed_checks_nothing [of t l u] by (simp add: closed_inv_def)
  qed simp
  have "callers_inv (cl_callers C) ms C'" by (rule callers.inv_run [OF assms(1) refl])
  from this [unfolded callers_inv_def none] show ?thesis using none by simp
qed

subsection \<open>Where a queued incident goes\<close>

definition addressed :: "rstring option \<Rightarrow> Task \<Rightarrow> bool" where
  "addressed default_key t \<longleftrightarrow>
     t_service_key t = None \<and> service_key (t_request t) = None \<or>
     t_service_key t = default_key \<and> option_or (service_key (t_request t)) (t_service_key t) \<noteq> None"

definition addressed_inv :: "rstring option \<Rightarrow> clabel list \<Rightarrow> ClientSystem \<Rightarrow> bool" where
  "addressed_inv key ls C \<longleftrightarrow>
     in_service_key (cl_inner C) = key \<and> (\<forall>t \<in> set (cl_callers C). addressed key t) \<and>
     (\<forall>t \<in> set (history accepted_by (dlabels ls)). addressed key t)"

lemma post_checks_addressed:
  "post_checks c request = Inr () \<Longrightarrow>
     addressed (in_service_key (inner c)) \<lparr>t_request = request, t_service_key = in_service_key (inner c)\<rparr>"
  by (cases "service_key request"; cases "in_service_key (inner c)")
    (auto simp: post_checks_def require_service_key_def tryr_eq_Inr addressed_def)

lemma routing_checks_addressed:
  "routing_checks c request = Inr () \<Longrightarrow> addressed key \<lparr>t_request = request, t_service_key = None\<rparr>"
  by (auto simp: routing_checks_def require_service_routable_def tryr_eq_Inr addressed_def split: if_splits)

interpretation addressing:
  trace_invariant cstep "\<lambda>C. in_service_key (cl_inner C) = key \<and> cl_callers C = []" "addressed_inv key"
  for key :: "rstring option"
proof
  fix C :: ClientSystem
  assume "in_service_key (cl_inner C) = key \<and> cl_callers C = []"
  then show "addressed_inv key [] C" by (simp add: addressed_inv_def)
next
  fix ls l and C C' :: ClientSystem
  assume inv: "addressed_inv key ls C" and "cstep C l C'"
  have view: "inner (client_of C) = cl_inner C" by (simp add: client_of_def)
  from \<open>cstep C l C'\<close> show "addressed_inv key (ls @ [l]) C'"
  proof (cases rule: cstep.cases)
    case (async_check request t)
    then show ?thesis
      using inv post_checks_addressed [of "client_of C" request] by (simp add: addressed_inv_def view)
  next
    case (routed_check request t)
    then show ?thesis
      using inv routing_checks_addressed [of "client_of C" request] by (simp add: addressed_inv_def)
  next
    case (async_refused t D)
    then show ?thesis using inv set_remove1_subset [of t "cl_callers C"] by (auto simp: addressed_inv_def)
  next
    case (async_accepted t ev D)
    then show ?thesis using inv set_remove1_subset [of t "cl_callers C"] by (auto simp: addressed_inv_def)
  qed (use inv in \<open>auto simp: addressed_inv_def close_signal_def background_no_submit\<close>)
qed

text \<open>
  Every incident a worker starts is addressed: the service key it will be delivered with is
  the request's own or else the client's, and there is one, unless the incident was queued
  for service routing, and then there is none.
\<close>

lemma started_tasks_are_addressed:
  assumes "run cstep (client_start inn now) ls C" and "t \<in> set (history taken_by (dlabels ls))"
  shows "addressed (in_service_key inn) t"
proof -
  have "addressed_inv (in_service_key inn) ls C"
    by (rule addressing.inv_run [OF assms(1)]) (simp add: client_start_def)
  moreover have "t \<in> set (history accepted_by (dlabels ls))"
    using assms(2) reachable_fifo [OF client_run_projects [OF assms(1)]]
    by (auto simp: removed_by_def)
  ultimately show ?thesis unfolding addressed_inv_def by blast
qed

text \<open>Only the interrupt of \<^verbatim>\<open>Inner\<close> ever changes.\<close>

lemma step_inner:
  "cstep C l C' \<Longrightarrow> \<exists>i. cl_inner C' = (cl_inner C)\<lparr>interrupt := i\<rparr>"
  by (cases rule: cstep.cases) (auto simp: close_signal_def intro: exI [of _ "interrupt (cl_inner C)"])

lemma run_inner: "run cstep C ls C' \<Longrightarrow> \<exists>i. cl_inner C' = (cl_inner C)\<lparr>interrupt := i\<rparr>"
proof (induction rule: run.induct)
  case (run_start C)
  show ?case by (rule exI [of _ "interrupt (cl_inner C)"]) simp
next
  case (run_step C ls C1 l C2)
  then show ?case using step_inner [of C1 l C2] by auto
qed

subsection \<open>The threads refine the sequential close\<close>

text \<open>
  C14. Concurrent closing refines sequential closing: whatever callers, workers and other calls
  of \<^verbatim>\<open>close\<close> did, once the call of \<^verbatim>\<open>close\<close> that won the \<^verbatim>\<open>swap\<close> has returned from
  \<^verbatim>\<open>dispatcher.close\<close> the client is the one that \<open>client_close\<close>, run alone on the fresh client,
  returns at its first turn, up to the counters of running and dropped tasks: flagged closed,
  its interrupt signalled and all else of \<^verbatim>\<open>Inner\<close> as it was, admitting nothing, not draining,
  with an empty queue. A call that lost the \<^verbatim>\<open>swap\<close> promises none of this: see
  \<open>losing_close_returns_early\<close>.
\<close>

theorem threads_refine_sequential_close:
  assumes "run cstep (client_start inn now) ls C" and "\<not> signalled (interrupt inn)"
    and "closer (cl_dispatcher C) = Closed abandoned"
  shows "\<exists>c lg count. client_close now' [(now', id)] (client_of (client_start inn now)) = Some c \<and>
    client_of C =
      c\<lparr>dispatcher := (dispatcher c)\<lparr>drop_logger := lg, state := (state (dispatcher c))\<lparr>active := count\<rparr>\<rparr>\<rparr>"
proof -
  note D = client_run_projects [OF assms(1)]
  have "phase_inv (cl_dispatcher C)" by (rule reachable_phase_inv [OF D])
  then have st: "\<not> accepting (st (cl_dispatcher C))" "\<not> draining (st (cl_dispatcher C))" "tasks (st (cl_dispatcher C)) = []"
    using assms(3) by (simp_all add: phase_inv_def)
  have cap: "capacity (shared (cl_dispatcher C)) = QUEUE_CAPACITY"
    using run_constants [OF D] by (simp add: dispatcher_new_def shared_new_def)
  have cl: "cl_closed C" "signalled (interrupt (cl_inner C))"
    using reachable_close_inv [OF assms(1,2)] st(1) by (auto simp: close_inv_def)
  obtain i where inn: "cl_inner C = inn\<lparr>interrupt := i\<rparr>"
    using run_inner [OF assms(1)] by (auto simp: client_start_def)
  have i: "i = signal (interrupt inn)" using cl(2) inn by (cases i; cases "interrupt inn") (simp add: signal_def)
  let ?s = "\<lparr>tasks = [], accepting = False, draining = False, active = 0\<rparr>"
  let ?c = "\<lparr>inner = close_signal inn, dispatcher = (shared_new QUEUE_CAPACITY now)\<lparr>state := ?s\<rparr>, closed = True\<rparr>"
  have "client_close now' [(now', id)] (client_of (client_start inn now)) = Some ?c"
    by (simp add: client_close_def close_swap_def dispatcher_close_def close_begin_def drain_turn_def drain_finish_def
        client_of_def client_start_def dispatcher_new_def shared_new_def)
  moreover have "client_of C = ?c\<lparr>dispatcher := (dispatcher ?c)\<lparr>drop_logger := drop_logger (shared (cl_dispatcher C)),
      state := (state (dispatcher ?c))\<lparr>active := active (st (cl_dispatcher C))\<rparr>\<rparr>\<rparr>"
    using st cap cl(1) unfolding client_of_def inn i
    by (auto simp: close_signal_def shared_new_def intro!: Shared.equality State.equality)
  ultimately show ?thesis by blast
qed

subsection \<open>A concrete run\<close>

text \<open>
  A caller checks and is overtaken by \<^verbatim>\<open>close\<close>, which swaps, signals and shuts the dispatcher;
  the caller is refused. A second run delivers.
\<close>

definition demo_inner :: Inner where
  "demo_inner = \<lparr>in_service_key = Some (lit ''svc''), transport = sample_transport, interrupt = interrupt_new,
     retry_delays = DEFAULT_RETRY_DELAYS\<rparr>"

definition demo_task :: Task where
  "demo_task = \<lparr>t_request = sample_request, t_service_key = Some (lit ''svc'')\<rparr>"

definition demo :: "Task list \<Rightarrow> closing \<Rightarrow> Task System \<Rightarrow> ClientSystem" where
  "demo cs k D = \<lparr>cl_inner = (if k = Signalled \<or> k = Handed then close_signal demo_inner else demo_inner),
     cl_closed = (k \<noteq> NotClosing), cl_closing = k, cl_callers = cs, cl_dispatcher = D\<rparr>"

abbreviation demo_open :: "Task System" where
  "demo_open \<equiv> race [] True [Looping, Looping] Open 0"

abbreviation demo_shut :: "Task System" where
  "demo_shut \<equiv> race [] False [Looping, Looping] (Begun CLOSE_DRAIN_TIMEOUT) 0"

lemma demo_start: "client_start demo_inner 0 = demo [] NotClosing demo_open"
  by (simp add: client_start_def demo_def race_new)

lemma demo_check: "cstep (demo [] NotClosing D) (Checked demo_task) (demo [demo_task] NotClosing D)"
  using async_check [of "demo [] NotClosing D" sample_request demo_task]
  by (simp add: demo_def demo_task_def client_of_def demo_inner_def post_checks_def ensure_open_def
      require_service_key_def)

lemma demo_swap: "cstep (demo cs NotClosing D) CloseWon (demo cs Swapped D)"
  using close_won [of "demo cs NotClosing D"] by (simp add: demo_def client_of_def close_swap_def)

lemma demo_signal: "cstep (demo cs Swapped D) Signal (demo cs Signalled D)"
  using close_signalled [of "demo cs Swapped D"] by (simp add: demo_def)

lemma demo_shutting: "cstep (demo cs Signalled demo_open) (Disp (Shut CLOSE_DRAIN_TIMEOUT)) (demo cs Handed demo_shut)"
proof -
  have "dstep demo_open (Shut CLOSE_DRAIN_TIMEOUT) demo_shut" by (rule race_close)
  with close_dispatcher [of "demo cs Signalled demo_open" demo_shut] show ?thesis by (simp add: demo_def)
qed

lemma demo_refused: "cstep (demo [t] Handed demo_shut) (Disp (Refuse t)) (demo [] Handed demo_shut)"
proof -
  have "submit (time demo_shut) 0 t (shared demo_shut) = (False, None, shared demo_shut)"
    by (rule submit_refused) (simp add: race_def)
  then have "dstep demo_shut (Refuse t) (demo_shut\<lparr>shared := shared demo_shut\<rparr>)" by (rule submit_refuse)
  from async_refused [of t "demo [t] Handed demo_shut"] this show ?thesis by (simp add: demo_def)
qed

lemmas crun_Cons = run_Cons [where step = cstep]

lemma demo_close_run:
  "run cstep (demo cs NotClosing demo_open) [CloseWon, Signal, Disp (Shut CLOSE_DRAIN_TIMEOUT)] (demo cs Handed demo_shut)"
  by (intro crun_Cons [OF demo_swap] crun_Cons [OF demo_signal] crun_Cons [OF demo_shutting] run_start)

text \<open>
  A second call of \<^verbatim>\<open>close\<close> does not wait for the first: it can return while the interrupt is
  not yet signalled and the dispatcher still admits work.
\<close>

lemma losing_close_returns_early:
  "\<exists>ls C. run cstep (client_start demo_inner 0) (ls @ [CloseLost]) C \<and> cl_closed C \<and>
     \<not> signalled (interrupt (cl_inner C)) \<and> accepting (st (cl_dispatcher C))"
proof -
  let ?C = "demo [] Swapped demo_open"
  have "cstep ?C CloseLost ?C"
    using close_lost [of ?C] by (simp add: demo_def client_of_def close_swap_def)
  then have "run cstep (client_start demo_inner 0) ([CloseWon] @ [CloseLost]) ?C"
    unfolding demo_start by (rule run_step [OF run_one [where step = cstep, OF demo_swap]])
  moreover have "cl_closed ?C \<and> \<not> signalled (interrupt (cl_inner ?C)) \<and> accepting (st (cl_dispatcher ?C))"
    by (simp add: demo_def demo_inner_def interrupt_new_def race_def)
  ultimately show ?thesis by blast
qed

definition demo_labels :: "clabel list" where
  "demo_labels = [Checked demo_task, CloseWon, Signal, Disp (Shut CLOSE_DRAIN_TIMEOUT), Disp (Refuse demo_task)]"

lemma demo_run: "run cstep (client_start demo_inner 0) demo_labels (demo [] Handed demo_shut)"
proof -
  have "run cstep (demo [demo_task] NotClosing demo_open)
      ([CloseWon, Signal, Disp (Shut CLOSE_DRAIN_TIMEOUT)] @ [Disp (Refuse demo_task)]) (demo [] Handed demo_shut)"
    by (rule run_append [OF run_one [where step = cstep, OF demo_refused] demo_close_run])
  from crun_Cons [OF demo_check this] show ?thesis by (simp add: demo_start demo_labels_def)
qed

theorem signal_precedes_drain_witness:
  "\<not> accepting (st demo_shut) \<and> signalled (interrupt (cl_inner (demo [] Handed demo_shut)))"
  using signal_precedes_drain [OF demo_run] by (simp add: demo_inner_def interrupt_new_def race_def demo_def)

theorem async_posts_are_accounted_for_witness:
  "mset [demo_task] = mset (history refused_by (dlabels demo_labels))"
  using async_posts_are_accounted_for [OF demo_run]
  by (simp add: demo_labels_def demo_def race_def running_tasks_def)

theorem only_checked_calls_race_with_close_witness:
  "mset [demo_task] = mset (history refused_by (dlabels [Disp (Refuse demo_task)]))"
  using only_checked_calls_race_with_close [OF run_one [where step = cstep, OF demo_refused [of demo_task]]]
  by (simp add: demo_def)

definition demo_drained :: "Task System" where
  "demo_drained = set_state \<lparr>tasks = [], accepting = False, draining = False, active = 0\<rparr>
     (race [] False [Looping, Looping] (Draining CLOSE_DRAIN_TIMEOUT) 0)\<lparr>closer := Drained 0\<rparr>"

definition demo_closed :: "Task System" where
  "demo_closed = notify_all demo_drained\<lparr>closer := Closed 0\<rparr>"

lemma demo_background:
  "dstep D l D' \<Longrightarrow> background l \<Longrightarrow> cstep (demo cs Handed D) (Disp l) (demo cs Handed D')"
  using dispatcher_step [of "demo cs Handed D" l D'] by (simp add: demo_def)

lemma demo_closed_run: "\<exists>ls. run cstep (client_start demo_inner 0) ls (demo [] Handed demo_closed)"
proof -
  let ?D = "race [] False [Looping, Looping] (Draining CLOSE_DRAIN_TIMEOUT) 0 :: Task System"
  have "dstep demo_shut Internal ?D" by (rule race_deadline)
  moreover have "dstep ?D (Abandon (tasks (st ?D))) demo_drained"
    unfolding demo_drained_def
    by (rule drain_leave [of _ CLOSE_DRAIN_TIMEOUT]) (simp_all add: race_def drain_turn_None drain_finish_def)
  moreover have "dstep demo_drained Released demo_closed"
    unfolding demo_closed_def by (rule close_notify) (simp add: demo_drained_def)
  ultimately have "\<exists>ls. run cstep (demo [] Handed demo_shut) ls (demo [] Handed demo_closed)"
    by (meson crun_Cons demo_background background.simps run_start)
  then obtain ms where "run cstep (demo [] Handed demo_shut) ms (demo [] Handed demo_closed)" ..
  from run_append [where step = cstep, OF this demo_run] show ?thesis ..
qed

theorem threads_refine_sequential_close_witness:
  "\<exists>c lg count. client_close 7 [(7, id)] (client_of (client_start demo_inner 0)) = Some c \<and>
    client_of (demo [] Handed demo_closed) =
      c\<lparr>dispatcher := (dispatcher c)\<lparr>drop_logger := lg, state := (state (dispatcher c))\<lparr>active := count\<rparr>\<rparr>\<rparr>"
proof -
  obtain ls where run: "run cstep (client_start demo_inner 0) ls (demo [] Handed demo_closed)"
    using demo_closed_run ..
  show ?thesis
    by (rule threads_refine_sequential_close [OF run, of 0])
      (simp_all add: demo_inner_def interrupt_new_def demo_def demo_closed_def)
qed

text \<open>And a caller whose task is accepted and started.\<close>

definition demo_queued :: "Task System" where
  "demo_queued = race [demo_task] True [Looping, Looping] Open 1"

definition demo_taken :: "Task System" where
  "demo_taken = set_worker 0 (Running demo_task)
     (set_state \<lparr>tasks = [], accepting = True, draining = True, active = 1\<rparr> demo_queued)"

lemma demo_started_run:
  "run cstep (client_start demo_inner 0) [Checked demo_task, Disp (Accept demo_task []), Disp (Take demo_task)]
     (demo [] NotClosing demo_taken)"
proof -
  have "dstep demo_open (Accept demo_task []) demo_queued"
    using race_submit [of "[Looping, Looping]" Open 0 demo_task] by (simp add: demo_queued_def)
  then have acc: "cstep (demo [demo_task] NotClosing demo_open) (Disp (Accept demo_task [])) (demo [] NotClosing demo_queued)"
    using async_accepted [of demo_task "demo [demo_task] NotClosing demo_open" "[]" demo_queued] by (simp add: demo_def)
  have "dstep demo_queued (Take demo_task) demo_taken"
    unfolding demo_taken_def by (rule work_take) (simp_all add: demo_queued_def race_def sections)
  then have take: "cstep (demo [] NotClosing demo_queued) (Disp (Take demo_task)) (demo [] NotClosing demo_taken)"
    using dispatcher_step [of "demo [] NotClosing demo_queued" "Take demo_task" demo_taken] by (simp add: demo_def)
  show ?thesis
    unfolding demo_start by (intro crun_Cons [OF demo_check] crun_Cons [OF acc] crun_Cons [OF take] run_start)
qed

end
