(* ===== verification/Shared_Posts.thy ===== *)
theory Shared_Posts
  imports Client_Properties Transition
begin

text \<open>
  Synchronous calls of several threads on one shared client (\<^verbatim>\<open>client.rs\<close>, over \<^verbatim>\<open>retry.rs\<close>,
  \<^verbatim>\<open>transport.rs\<close> and \<^verbatim>\<open>interrupt.rs\<close>). \<^verbatim>\<open>Client\<close> has a call as one function of its world; here
  it is cut at every point where another thread can come in between: the load of the closed
  flag, handing a request to the agent, the agent's answer, and each time the lock of the
  interrupt is held. The threads share the client's flags, the network and the clock, and one
  of them may close the client.
\<close>

record Call =
  ca_request :: IncidentRequest
  ca_routed :: bool \<comment> \<open>\<^verbatim>\<open>post_with_service_routing\<close> rather than \<^verbatim>\<open>post\<close>\<close>

definition call_checks :: "'task IncidentClient \<Rightarrow> Call \<Rightarrow> (unit, 'e IncidentError) result" where
  "call_checks c call =
     (if ca_routed call then routing_checks c (ca_request call) else post_checks c (ca_request call))"

definition call_payload :: "('v, 'e) serde_json \<Rightarrow> Inner \<Rightarrow> Call \<Rightarrow> rstring" where
  "call_payload J inn call =
     serialize_request J (ca_request call)
       (option_or (service_key (ca_request call)) (if ca_routed call then None else in_service_key inn))"

text \<open>The service key a call resolves to, and what its requests carry.\<close>

definition call_key :: "Inner \<Rightarrow> Call \<Rightarrow> rstring option" where
  "call_key inn call =
     option_or (service_key (ca_request call)) (if ca_routed call then None else in_service_key inn)"

lemma call_payload_carries:
  "json_quoting (quote J) \<Longrightarrow>
     carries (transport inn) (ca_request call) (call_key inn call) (http_request (transport inn) (call_payload J inn call))"
  by (simp add: call_payload_def call_key_def http_request_carries)

text \<open>A call is one of the two synchronous posts of \<^verbatim>\<open>Client\<close>.\<close>

lemma call_is_post:
  fixes J :: "('v, 'e) serde_json"
  shows "(if ca_routed call then post_with_service_routing J N c (ca_request call) W else post J N c (ca_request call) W) =
    (case (call_checks c call :: (unit, 'e IncidentError) result) of
       Inl e \<Rightarrow> (Inl e, W)
     | Inr _ \<Rightarrow> execute_with_retry (retry_delays (inner c)) (wait_in (interrupt (inner c)))
         (send_in J N (transport (inner c)) (call_payload J (inner c) call)) W)"
  by (simp add: post_def post_with_service_routing_def call_checks_def call_payload_def deliver_def Let_def split: sum.split)

text \<open>Where a call is. The number is the local \<^verbatim>\<open>attempt\<close> of the retry loop.\<close>

datatype 'e point =
    Calling
  | Attempting nat
  | InFlight nat
  | Failing nat
  | Backoff nat instant \<comment> \<open>waiting since then\<close>
  | Returned "(IncidentResponse, 'e IncidentError) result"

record ('n, 'e) Sharing =
  sh_client :: "Task IncidentClient"
  sh_net :: 'n
  sh_time :: instant
  sh_calls :: "Call list"
  sh_points :: "'e point list"
  sh_stopping :: bool \<comment> \<open>a call of \<^verbatim>\<open>close\<close> has won the swap and not yet signalled\<close>

abbreviation sh_inner :: "('n, 'e) Sharing \<Rightarrow> Inner" where
  "sh_inner S \<equiv> inner (sh_client S)"

abbreviation sh_delays :: "('n, 'e) Sharing \<Rightarrow> duration list" where
  "sh_delays S \<equiv> retry_delays (sh_inner S)"

definition move :: "nat \<Rightarrow> 'e point \<Rightarrow> ('n, 'e) Sharing \<Rightarrow> ('n, 'e) Sharing" where
  "move i p S = S\<lparr>sh_points := (sh_points S)[i := p]\<rparr>"

abbreviation at :: "('n, 'e) Sharing \<Rightarrow> nat \<Rightarrow> 'e point \<Rightarrow> bool" where
  "at S i p \<equiv> i < length (sh_points S) \<and> sh_points S ! i = p"

definition sharing :: "Task IncidentClient \<Rightarrow> 'n \<Rightarrow> instant \<Rightarrow> Call list \<Rightarrow> ('n, 'e) Sharing" where
  "sharing c n now calls =
     \<lparr>sh_client = c, sh_net = n, sh_time = now, sh_calls = calls, sh_points = replicate (length calls) Calling,
      sh_stopping = False\<rparr>"

text \<open>What \<^verbatim>\<open>execute_with_retry\<close> does with the outcome of an attempt, up to the wait.\<close>

definition after_attempt ::
  "duration list \<Rightarrow> nat \<Rightarrow> (IncidentResponse, 'e IncidentError) result \<Rightarrow> 'e point" where
  "after_attempt delays attempt r =
     (case r of
        Inr v \<Rightarrow> Returned (Inr v)
      | Inl failure \<Rightarrow>
          if \<not> is_retryable failure \<or> length delays \<le> attempt
          then Returned (Inl (with_attempt_count failure (attempt + 1)))
          else Failing attempt)"

text \<open>And with the outcome of the wait.\<close>

definition after_wait :: "nat \<Rightarrow> bool \<Rightarrow> 'e point" where
  "after_wait attempt interrupted =
     (if interrupted then Returned (Inl interrupted_error) else Attempting (attempt + 1))"

datatype 'e slabel =
    Refused nat "'e IncidentError"
  | Admitted nat
  | Asked nat HttpRequest
  | Answered nat "('e HttpResponse, 'e) result"
  | Slept nat
  | Woken nat bool
  | Swap
  | Stop
  | Tick

text \<open>
  A wait reads the flag when it starts and each time the condition variable gives it the lock
  back; a return at which it neither sees the flag nor finds its time over changes nothing.
\<close>

inductive sstep ::
  "('v, 'e) serde_json \<Rightarrow> ('n, 'e) ureq \<Rightarrow> ('n, 'e) Sharing \<Rightarrow> 'e slabel \<Rightarrow> ('n, 'e) Sharing \<Rightarrow> bool"
  for J U where
  call_refused:
    "at S i Calling \<Longrightarrow> call_checks (sh_client S) (sh_calls S ! i) = Inl e \<Longrightarrow>
     sstep J U S (Refused i e) (move i (Returned (Inl e)) S)"
| call_admitted:
    "at S i Calling \<Longrightarrow> call_checks (sh_client S) (sh_calls S ! i) = (Inr () :: (unit, 'e IncidentError) result) \<Longrightarrow>
     sstep J U S (Admitted i) (move i (Attempting 0) S)"
| ask:
    "at S i (Attempting k) \<Longrightarrow>
     q = http_request (transport (sh_inner S)) (call_payload J (sh_inner S) (sh_calls S ! i)) \<Longrightarrow>
     sstep J U S (Asked i q) (move i (InFlight k) S)"
| answer:
    "at S i (InFlight k) \<Longrightarrow> payload = call_payload J (sh_inner S) (sh_calls S ! i) \<Longrightarrow>
     U (agent (transport (sh_inner S))) (http_request (transport (sh_inner S)) payload) (sh_net S) = (x, n) \<Longrightarrow>
     send J U (transport (sh_inner S)) payload (sh_net S) = (r, n) \<Longrightarrow>
     sstep J U S (Answered i x) (move i (after_attempt (sh_delays S) k r) (S\<lparr>sh_net := n\<rparr>))"
| wait_at_once:
    "at S i (Failing k) \<Longrightarrow> k < length (sh_delays S) \<Longrightarrow>
     wait_timeout_while (sh_delays S ! k) [(0, signalled (interrupt (sh_inner S)))] = Some (flag, spent) \<Longrightarrow>
     sstep J U S (Woken i flag) (move i (after_wait k flag) S)"
| wait_sleeps:
    "at S i (Failing k) \<Longrightarrow> k < length (sh_delays S) \<Longrightarrow>
     wait_timeout_while (sh_delays S ! k) [(0, signalled (interrupt (sh_inner S)))] = None \<Longrightarrow>
     sstep J U S (Slept i) (move i (Backoff k (sh_time S)) S)"
| wait_ends:
    "at S i (Backoff k since) \<Longrightarrow> k < length (sh_delays S) \<Longrightarrow> sh_time S \<le> now \<Longrightarrow>
     wait_timeout_while (sh_delays S ! k) [(now - since, signalled (interrupt (sh_inner S)))] = Some (flag, spent) \<Longrightarrow>
     sstep J U S (Woken i flag) (move i (after_wait k flag) (S\<lparr>sh_time := now\<rparr>))"
| close_won:
    "close_swap (sh_client S) = (False, c) \<Longrightarrow> sstep J U S Swap (S\<lparr>sh_client := c, sh_stopping := True\<rparr>)"
| close_lost:
    "close_swap (sh_client S) = (True, c) \<Longrightarrow> sstep J U S Swap (S\<lparr>sh_client := c\<rparr>)"
| close_signals:
    "sh_stopping S \<Longrightarrow>
     sstep J U S Stop
       (S\<lparr>sh_client := (sh_client S)\<lparr>inner := close_signal (sh_inner S)\<rparr>, sh_stopping := False\<rparr>)"
| tick:
    "sstep J U S Tick (S\<lparr>sh_time := sh_time S + d\<rparr>)"

subsection \<open>What every step keeps\<close>

lemma move_simps [simp]:
  "sh_client (move i p S) = sh_client S" "sh_net (move i p S) = sh_net S" "sh_time (move i p S) = sh_time S"
  "sh_calls (move i p S) = sh_calls S" "sh_stopping (move i p S) = sh_stopping S" "sh_points (move i p S) = (sh_points S)[i := p]"
  by (simp_all add: move_def)

text \<open>A client differs from another in its two flags only.\<close>

definition flags_apart :: "Task IncidentClient \<Rightarrow> Task IncidentClient \<Rightarrow> bool" where
  "flags_apart c d \<longleftrightarrow> (\<exists>i b. d = c\<lparr>inner := (inner c)\<lparr>interrupt := i\<rparr>, closed := b\<rparr>)"

lemma flags_apart_refl [simp]: "flags_apart c c"
  unfolding flags_apart_def by (rule exI [of _ "interrupt (inner c)"], rule exI [of _ "closed c"]) simp

lemma flags_apart_same:
  assumes "flags_apart c d"
  shows "transport (inner d) = transport (inner c)" "retry_delays (inner d) = retry_delays (inner c)"
    "in_service_key (inner d) = in_service_key (inner c)" "call_payload J (inner d) call = call_payload J (inner c) call"
    "call_checks d call = (call_checks (c\<lparr>closed := closed d\<rparr>) call :: (unit, 'e IncidentError) result)"
  using assms
  by (auto simp: flags_apart_def call_payload_def call_checks_def post_checks_def routing_checks_def ensure_open_def
      require_service_key_def)

lemma flags_apartI: "d = c\<lparr>inner := (inner c)\<lparr>interrupt := i\<rparr>, closed := b\<rparr> \<Longrightarrow> flags_apart c d"
  unfolding flags_apart_def by blast

lemma flags_apart_close_swap:
  assumes "flags_apart c d" and "close_swap d = (b, d')"
  shows "flags_apart c d'"
proof -
  obtain i b' where "d = c\<lparr>inner := (inner c)\<lparr>interrupt := i\<rparr>, closed := b'\<rparr>"
    using assms(1) unfolding flags_apart_def by blast
  with assms(2) show ?thesis by (intro flags_apartI [where i = i and b = True]) (auto simp: close_swap_def)
qed

lemma flags_apart_close_signal:
  assumes "flags_apart c d"
  shows "flags_apart c (d\<lparr>inner := close_signal (inner d)\<rparr>)"
proof -
  obtain i b where "d = c\<lparr>inner := (inner c)\<lparr>interrupt := i\<rparr>, closed := b\<rparr>"
    using assms unfolding flags_apart_def by blast
  then show ?thesis by (intro flags_apartI [where i = "signal i" and b = b]) (simp add: close_signal_def)
qed

lemma sstep_flags: "sstep J U S l T \<Longrightarrow> flags_apart c (sh_client S) \<Longrightarrow> flags_apart c (sh_client T)"
  by (induction rule: sstep.induct) (auto intro: flags_apart_close_swap flags_apart_close_signal)

lemma sstep_calls: "sstep J U S l T \<Longrightarrow> sh_calls T = sh_calls S \<and> length (sh_points T) = length (sh_points S)"
  by (cases rule: sstep.cases) auto

subsection \<open>A call among others is a call alone\<close>

text \<open>
  What the outside world gave one call: the agent's answers and the results of its waits, in
  order; and the call run on its own against such a script.
\<close>

datatype 'e outcome = Exchanged "('e HttpResponse, 'e) result" | Flag bool

fun outcome_of :: "nat \<Rightarrow> 'e slabel \<Rightarrow> 'e outcome list" where
  "outcome_of i (Answered j x) = (if j = i then [Exchanged x] else [])"
| "outcome_of i (Woken j b) = (if j = i then [Flag b] else [])"
| "outcome_of i _ = []"

fun asked_of :: "nat \<Rightarrow> 'e slabel \<Rightarrow> HttpRequest list" where
  "asked_of i (Asked j q) = (if j = i then [q] else [])"
| "asked_of i _ = []"

abbreviation outcomes :: "nat \<Rightarrow> 'e slabel list \<Rightarrow> 'e outcome list" where
  "outcomes i ls \<equiv> concat (map (outcome_of i) ls)"

abbreviation asked :: "nat \<Rightarrow> 'e slabel list \<Rightarrow> HttpRequest list" where
  "asked i ls \<equiv> concat (map (asked_of i) ls)"

definition exchanges :: "'e outcome list \<Rightarrow> nat" where
  "exchanges os = length (filter (\<lambda>e. case e of Exchanged _ \<Rightarrow> True | Flag _ \<Rightarrow> False) os)"

lemma exchanges_simps [simp]:
  "exchanges [] = 0" "exchanges (os @ os') = exchanges os + exchanges os'"
  "exchanges [Exchanged x] = 1" "exchanges [Flag b] = 0"
  by (simp_all add: exchanges_def)

definition script_agent :: "('e outcome list, 'e) ureq" where
  "script_agent config q w =
     (case w of
        Exchanged x # rest \<Rightarrow> (x, rest)
      | _ \<Rightarrow> (Inr \<lparr>hr_status = 0, hr_read_to_string = (\<lambda>limit. Inr [])\<rparr>, w))"

definition script_wait :: "'e outcome list waiting" where
  "script_wait d w = (case w of Flag b # rest \<Rightarrow> (b, rest) | _ \<Rightarrow> (True, w))"

definition alone ::
  "('v, 'e) serde_json \<Rightarrow> Inner \<Rightarrow> Call \<Rightarrow> ('e outcome list, IncidentResponse, 'e) operation" where
  "alone J inn call =
     execute_with_retry (retry_delays inn) script_wait
       (send J script_agent (transport inn) (call_payload J inn call))"

definition resumed ::
  "('v, 'e) serde_json \<Rightarrow> Inner \<Rightarrow> Call \<Rightarrow> nat \<Rightarrow> ('e outcome list, IncidentResponse, 'e) operation" where
  "resumed J inn call =
     retry_loop (retry_delays inn) script_wait
       (send J script_agent (transport inn) (call_payload J inn call))"

text \<open>The rest of a call that has reached a point, as a function of the rest of its script.\<close>

definition waiting_rest ::
  "('v, 'e) serde_json \<Rightarrow> Inner \<Rightarrow> Call \<Rightarrow> nat \<Rightarrow> ('e outcome list, IncidentResponse, 'e) operation" where
  "waiting_rest J inn call k w =
     (case script_wait (retry_delays inn ! k) w of
        (b, w') \<Rightarrow> if b then (Inl interrupted_error, w') else resumed J inn call (Suc k) w')"

fun rest_of ::
  "('v, 'e) serde_json \<Rightarrow> Inner \<Rightarrow> Call \<Rightarrow> 'e point \<Rightarrow> ('e outcome list, IncidentResponse, 'e) operation" where
  "rest_of J inn call Calling w = alone J inn call w"
| "rest_of J inn call (Attempting k) w = resumed J inn call k w"
| "rest_of J inn call (InFlight k) w = resumed J inn call k w"
| "rest_of J inn call (Failing k) w = waiting_rest J inn call k w"
| "rest_of J inn call (Backoff k since) w = waiting_rest J inn call k w"
| "rest_of J inn call (Returned r) w = (r, w)"

lemma send_script:
  assumes "U (agent t) (http_request t payload) n = (x, n')" and "send J U t payload n = (r, n'')"
  shows "send J script_agent t payload (Exchanged x # w) = (r, w)"
  using assms by (auto simp: send_def script_agent_def split: sum.splits)

lemma rest_of_answer:
  assumes "send J script_agent (transport inn) (call_payload J inn call) (Exchanged x # w) = (r, w)"
  shows "resumed J inn call k (Exchanged x # w) = rest_of J inn call (after_attempt (retry_delays inn) k r) w"
  unfolding resumed_def
  by (subst retry_loop.simps)
    (auto simp: assms after_attempt_def resumed_def waiting_rest_def split: sum.splits intro!: prod.case_cong)

lemma rest_of_wait: "waiting_rest J inn call k (Flag b # w) = rest_of J inn call (after_wait k b) w"
  by (simp add: script_wait_def after_wait_def waiting_rest_def)

lemma alone_resumed: "alone J inn call w = resumed J inn call 0 w"
  by (simp add: alone_def resumed_def execute_with_retry_def)

text \<open>How far a call has got with its requests: one per answer, and one more while it waits for one.\<close>

fun open_requests :: "'e point \<Rightarrow> nat" where
  "open_requests (InFlight k) = 1"
| "open_requests _ = 0"

lemma open_requests_after [simp]:
  "open_requests (after_attempt ds k r) = 0" "open_requests (after_wait k b) = 0"
  by (auto simp: after_attempt_def after_wait_def split: sum.splits)

text \<open>One thread's view of a step: what it is given, what it asks, where it gets to.\<close>

inductive local_step ::
  "('v, 'e) serde_json \<Rightarrow> Task IncidentClient \<Rightarrow> Call \<Rightarrow>
     'e point \<Rightarrow> 'e outcome list \<Rightarrow> HttpRequest list \<Rightarrow> 'e point \<Rightarrow> bool"
  for J c call where
  local_refused: "call_checks (c\<lparr>closed := b\<rparr>) call = Inl e \<Longrightarrow> local_step J c call Calling [] [] (Returned (Inl e))"
| local_admitted:
    "call_checks (c\<lparr>closed := b\<rparr>) call = (Inr () :: (unit, 'e IncidentError) result) \<Longrightarrow>
     local_step J c call Calling [] [] (Attempting 0)"
| local_ask:
    "local_step J c call (Attempting k) []
       [http_request (transport (inner c)) (call_payload J (inner c) call)] (InFlight k)"
| local_answer:
    "(\<And>w. send J script_agent (transport (inner c)) (call_payload J (inner c) call) (Exchanged x # w) = (r, w)) \<Longrightarrow>
     local_step J c call (InFlight k) [Exchanged x] [] (after_attempt (retry_delays (inner c)) k r)"
| local_wait_at_once:
    "k < length (retry_delays (inner c)) \<Longrightarrow> local_step J c call (Failing k) [Flag b] [] (after_wait k b)"
| local_sleep:
    "k < length (retry_delays (inner c)) \<Longrightarrow> local_step J c call (Failing k) [] [] (Backoff k since)"
| local_wait_ends:
    "k < length (retry_delays (inner c)) \<Longrightarrow> local_step J c call (Backoff k since) [Flag b] [] (after_wait k b)"

lemma sstep_local:
  assumes "sstep J U S l T" and "flags_apart c (sh_client S)" and "i < length (sh_points S)"
  shows "(sh_points T ! i = sh_points S ! i \<and> outcome_of i l = [] \<and> asked_of i l = []) \<or>
    local_step J c (sh_calls S ! i) (sh_points S ! i) (outcome_of i l) (asked_of i l) (sh_points T ! i)"
  using assms(1)
  supply same = flags_apart_same [OF assms(2)]
proof (cases rule: sstep.cases)
  case (call_refused j e)
  then show ?thesis using assms(3) by (cases "j = i") (auto simp: same intro: local_refused)
next
  case (call_admitted j)
  then show ?thesis using assms(3) by (cases "j = i") (auto simp: same intro: local_admitted)
next
  case (ask j k q)
  then show ?thesis using assms(3) by (cases "j = i") (auto simp: same intro: local_ask)
next
  case (answer j k payload x n r)
  then show ?thesis
    using assms(3) send_script [OF answer(5,6)]
    by (cases "j = i") (auto simp: same intro!: local_answer)
next
  case (wait_at_once j k flag spent)
  then show ?thesis using assms(3) by (cases "j = i") (auto simp: same intro: local_wait_at_once)
next
  case (wait_sleeps j k)
  then show ?thesis using assms(3) by (cases "j = i") (auto simp: same intro: local_sleep)
next
  case (wait_ends j k since now flag spent)
  then show ?thesis using assms(3) by (cases "j = i") (auto simp: same intro: local_wait_ends)
qed simp_all

definition faithful ::
  "('v, 'e) serde_json \<Rightarrow> Task IncidentClient \<Rightarrow> Call \<Rightarrow> 'e outcome list \<Rightarrow> HttpRequest list \<Rightarrow> 'e point \<Rightarrow> bool" where
  "faithful J c call os qs p \<longleftrightarrow>
     (\<forall>w. alone J (inner c) call (os @ w) = rest_of J (inner c) call p w) \<and>
     qs = replicate (exchanges os + open_requests p) (http_request (transport (inner c)) (call_payload J (inner c) call))"

definition refused :: "Task IncidentClient \<Rightarrow> Call \<Rightarrow> 'e outcome list \<Rightarrow> HttpRequest list \<Rightarrow> 'e point \<Rightarrow> bool" where
  "refused c call os qs p \<longleftrightarrow>
     (\<exists>e b. p = Returned (Inl e) \<and> call_checks (c\<lparr>closed := b\<rparr>) call = Inl e) \<and> os = [] \<and> qs = []"

definition sharing_inv ::
  "('v, 'e) serde_json \<Rightarrow> Task IncidentClient \<Rightarrow> Call list \<Rightarrow> 'e slabel list \<Rightarrow> ('n, 'e) Sharing \<Rightarrow> bool" where
  "sharing_inv J c calls ls S \<longleftrightarrow>
     flags_apart c (sh_client S) \<and> sh_calls S = calls \<and> length (sh_points S) = length calls \<and>
     (\<forall>i < length calls.
        (sh_points S ! i = Calling \<longrightarrow> outcomes i ls = [] \<and> asked i ls = []) \<and>
        (refused c (calls ! i) (outcomes i ls) (asked i ls) (sh_points S ! i) \<or>
         faithful J c (calls ! i) (outcomes i ls) (asked i ls) (sh_points S ! i)))"


lemma local_step_faithful:
  assumes "local_step J c call p os' qs' p'" and "p = Calling \<Longrightarrow> os = [] \<and> qs = []"
    and "refused c call os qs p \<or> faithful J c call os qs p"
  shows "refused c call (os @ os') (qs @ qs') p' \<or> faithful J c call (os @ os') (qs @ qs') p'"
  using assms
proof (cases rule: local_step.cases)
  case (local_refused b e)
  with assms(2) show ?thesis by (auto simp: refused_def)
next
  case (local_admitted b)
  with assms(2) show ?thesis by (simp add: faithful_def alone_resumed)
next
  case (local_ask k)
  with assms(3) show ?thesis by (auto simp: refused_def faithful_def simp flip: replicate_append_same)
next
  case (local_answer x r k)
  with assms(3) show ?thesis by (auto simp: refused_def faithful_def rest_of_answer)
next
  case (local_wait_at_once k b)
  with assms(3) show ?thesis by (auto simp: refused_def faithful_def rest_of_wait)
next
  case (local_sleep k since)
  with assms(3) show ?thesis by (auto simp: refused_def faithful_def)
next
  case (local_wait_ends k since b)
  with assms(3) show ?thesis by (auto simp: refused_def faithful_def rest_of_wait)
qed

lemma local_step_leaves: "local_step J c call p os qs p' \<Longrightarrow> p' \<noteq> Calling"
  by (cases rule: local_step.cases) (auto simp: after_attempt_def after_wait_def split: sum.splits if_splits)

interpretation replayed: trace_invariant "sstep J U" "\<lambda>S. \<exists>n now. S = sharing c n now calls" "sharing_inv J c calls"
  for J :: "('v, 'e) serde_json" and U :: "('n, 'e) ureq" and c calls
proof
  show "sharing_inv J c calls [] S" if "\<exists>n now. S = sharing c n now calls" for S :: "('n, 'e) Sharing"
    using that by (auto simp: sharing_inv_def sharing_def faithful_def)
  fix ls and S T :: "('n, 'e) Sharing" and l
  assume inv: "sharing_inv J c calls ls S" and step: "sstep J U S l T"
  note len = sstep_calls [OF step]
  have flags: "flags_apart c (sh_client S)" using inv by (simp add: sharing_inv_def)
  show "sharing_inv J c calls (ls @ [l]) T"
    unfolding sharing_inv_def
  proof (intro conjI allI impI)
    show "flags_apart c (sh_client T)" by (rule sstep_flags [OF step flags])
    show "sh_calls T = calls" "length (sh_points T) = length calls" using inv len by (simp_all add: sharing_inv_def)
    fix i
    assume i: "i < length calls"
    then have now: "sh_points S ! i = Calling \<Longrightarrow> outcomes i ls = [] \<and> asked i ls = []"
      "refused c (calls ! i) (outcomes i ls) (asked i ls) (sh_points S ! i) \<or>
       faithful J c (calls ! i) (outcomes i ls) (asked i ls) (sh_points S ! i)" and "sh_calls S = calls"
      "i < length (sh_points S)"
      using inv by (auto simp: sharing_inv_def)
    note local = sstep_local [OF step flags this(4), unfolded this(3)]
    from local show "refused c (calls ! i) (outcomes i (ls @ [l])) (asked i (ls @ [l])) (sh_points T ! i) \<or>
      faithful J c (calls ! i) (outcomes i (ls @ [l])) (asked i (ls @ [l])) (sh_points T ! i)"
    proof
      assume "local_step J c (calls ! i) (sh_points S ! i) (outcome_of i l) (asked_of i l) (sh_points T ! i)"
      from local_step_faithful [OF this now] show ?thesis by simp
    qed (use now in simp)
    show "outcomes i (ls @ [l]) = []" "asked i (ls @ [l]) = []" if "sh_points T ! i = Calling"
      using local now(1) that by (auto dest: local_step_leaves)
  qed
qed

lemma shared_run: "run (sstep J U) (sharing c n now calls) ls S \<Longrightarrow> sharing_inv J c calls ls S"
  by (rule replayed.inv_run) blast+

text \<open>
  C4. Sharing a client changes nothing for a call: whatever other calls, ticks of the clock and
  a closing thread come in between, a call that has returned was either refused by its checks
  without a request, or returned exactly what the sequential retry loop returns when it is
  alone with the answers and the waits this call got (\<open>call_is_post\<close> ties that loop to \<^verbatim>\<open>post\<close>
  and \<^verbatim>\<open>post_with_service_routing\<close>); and it sent one request per answer, always the same one,
  which carries its own incident under the key the call resolves to, provided \<^verbatim>\<open>serde_json\<close>
  quotes strings as JSON does.
\<close>

theorem shared_call_is_sequential:
  assumes "run (sstep J U) (sharing c n now calls) ls S" and "i < length calls" and "sh_points S ! i = Returned r"
  shows "(\<exists>e b. r = Inl e \<and> call_checks (c\<lparr>closed := b\<rparr>) (calls ! i) = Inl e \<and> asked i ls = []) \<or>
    (alone J (inner c) (calls ! i) (outcomes i ls) = (r, []) \<and>
     asked i ls = replicate (exchanges (outcomes i ls))
       (http_request (transport (inner c)) (call_payload J (inner c) (calls ! i))) \<and>
     (json_quoting (quote J) \<longrightarrow>
        list_all (carries (transport (inner c)) (ca_request (calls ! i)) (call_key (inner c) (calls ! i))) (asked i ls)))"
proof -
  have carries: "json_quoting (quote J) \<Longrightarrow>
      list_all (carries (transport (inner c)) (ca_request (calls ! i)) (call_key (inner c) (calls ! i)))
        (replicate k (http_request (transport (inner c)) (call_payload J (inner c) (calls ! i))))" for k
    by (simp add: list_all_iff call_payload_carries)
  have "sharing_inv J c calls ls S" by (rule shared_run [OF assms(1)])
  then have "refused c (calls ! i) (outcomes i ls) (asked i ls) (Returned r) \<or>
      faithful J c (calls ! i) (outcomes i ls) (asked i ls) (Returned r)"
    using assms(2,3) unfolding sharing_inv_def by metis
  then show ?thesis
  proof
    assume "faithful J c (calls ! i) (outcomes i ls) (asked i ls) (Returned r)"
    then have "alone J (inner c) (calls ! i) (outcomes i ls) = (r, []) \<and>
        asked i ls = replicate (exchanges (outcomes i ls))
          (http_request (transport (inner c)) (call_payload J (inner c) (calls ! i)))"
      unfolding faithful_def by (metis append_Nil2 rest_of.simps(6) open_requests.simps(6) add_0_right)
    then show ?thesis using carries by simp
  qed (auto simp: refused_def)
qed

subsection \<open>Every call returns\<close>

text \<open>The steps of the calls themselves; the others are a closing thread's and the clock's.\<close>

fun own :: "'e slabel \<Rightarrow> bool" where
  "own Swap = False"
| "own Stop = False"
| "own Tick = False"
| "own _ = True"

fun remaining :: "nat \<Rightarrow> 'e point \<Rightarrow> nat" where
  "remaining n Calling = 4 * n + 3"
| "remaining n (Attempting k) = 4 * (n - k) + 2"
| "remaining n (InFlight k) = 4 * (n - k) + 1"
| "remaining n (Failing k) = 4 * (n - k)"
| "remaining n (Backoff k since) = 4 * (n - k) - 1"
| "remaining n (Returned r) = 0"

definition call_rank :: "('n, 'e) Sharing \<Rightarrow> nat" where
  "call_rank S = sum_list (map (remaining (length (sh_delays S))) (sh_points S))"

lemma remaining_after_attempt: "remaining (length ds) (after_attempt ds k r) < 4 * (length ds - k) + 1"
  by (auto simp: after_attempt_def split: sum.splits)

lemma remaining_after_wait:
  "k < n \<Longrightarrow> remaining n (after_wait k b) < 4 * (n - k) - 1"
  "k < n \<Longrightarrow> remaining n (after_wait k b) < 4 * (n - k)"
  by (auto simp: after_wait_def)

lemma sum_list_lowered:
  fixes f :: "'a \<Rightarrow> nat"
  assumes "i < length xs" and "f y < f (xs ! i)"
  shows "sum_list (map f (xs[i := y])) < sum_list (map f xs)"
  using sum_list_update [OF assms(1), of f y] assms(2) by linarith

lemma sstep_rank_own: "sstep J U S l T \<Longrightarrow> own l \<Longrightarrow> call_rank T < call_rank S"
proof (induction rule: sstep.induct)
  case (answer S i k payload x n r)
  then show ?case using remaining_after_attempt [of "sh_delays S" k r]
    by (auto simp: call_rank_def intro!: sum_list_lowered)
next
  case (wait_at_once S i k flag spent)
  then show ?case using remaining_after_wait [where b = flag and k = k and n = "length (sh_delays S)"]
    by (auto simp: call_rank_def simp del: wait_timeout_while.simps intro!: sum_list_lowered)
next
  case (wait_ends S i k since now flag spent)
  then show ?case using remaining_after_wait [where b = flag and k = k and n = "length (sh_delays S)"]
    by (auto simp: call_rank_def intro!: sum_list_lowered)
qed (auto simp: call_rank_def intro!: sum_list_lowered)

lemma sstep_rank_free: "sstep J U S l T \<Longrightarrow> \<not> own l \<Longrightarrow> call_rank T \<le> call_rank S"
  by (induction rule: sstep.induct) (auto simp: call_rank_def close_swap_def close_signal_def)

interpretation posting: ranked_steps "sstep J U" own "\<lambda>l. \<not> own l" call_rank for J U
  by unfold_locales (fact sstep_rank_own sstep_rank_free)+

fun is_Returned :: "'e point \<Rightarrow> bool" where
  "is_Returned (Returned r) = True"
| "is_Returned _ = False"

fun in_schedule :: "nat \<Rightarrow> 'e point \<Rightarrow> bool" where
  "in_schedule n (Failing k) = (k < n)"
| "in_schedule n (Backoff k since) = (k < n)"
| "in_schedule n _ = True"

definition scheduled :: "('n, 'e) Sharing \<Rightarrow> bool" where
  "scheduled S \<longleftrightarrow> list_all (in_schedule (length (sh_delays S))) (sh_points S)"

lemma list_all_update: "list_all P xs \<Longrightarrow> P y \<Longrightarrow> list_all P (xs[i := y])"
  by (auto simp: list_all_iff dest: set_update_subset_insert [THEN subsetD])

interpretation schedules: state_invariant "sstep J U" scheduled for J U
proof
  show "scheduled T" if "scheduled S" and "sstep J U S l T" for S l T
    using that(2,1)
    by (induction rule: sstep.induct)
      (auto simp: scheduled_def after_attempt_def after_wait_def close_swap_def close_signal_def list_all_update
        split: sum.splits)
qed

text \<open>A call that has not returned can go on.\<close>

lemma call_goes_on:
  fixes J :: "('v, 'e) serde_json"
  assumes "scheduled S" and "i < length (sh_points S)" and "\<not> is_Returned (sh_points S ! i)"
  shows "\<exists>l T. sstep J U S l T \<and> own l"
proof (cases "sh_points S ! i")
  case Calling
  then show ?thesis
    using assms(2) call_refused [where S = S and i = i] call_admitted [where S = S and i = i]
    by (cases "call_checks (sh_client S) (sh_calls S ! i) :: (unit, 'e IncidentError) result") (force simp: own.simps)+
next
  case (Attempting k)
  with assms(2) show ?thesis using ask [where S = S and i = i] by (force simp: own.simps)
next
  case (InFlight k)
  let ?t = "transport (sh_inner S)" and ?p = "call_payload J (sh_inner S) (sh_calls S ! i)"
  obtain x n where "U (agent ?t) (http_request ?t ?p) (sh_net S) = (x, n)" by fastforce
  moreover from this obtain r where "send J U ?t ?p (sh_net S) = (r, n)"
    by (cases x) (auto simp: send_def)
  ultimately have "sstep J U S (Answered i x) (move i (after_attempt (sh_delays S) k r) (S\<lparr>sh_net := n\<rparr>))"
    using InFlight assms(2) by (intro answer) auto
  then show ?thesis by force
next
  case (Failing k)
  then have "k < length (sh_delays S)" using assms(1,2) by (force simp: scheduled_def list_all_length)
  then show ?thesis
    using Failing assms(2) wait_at_once [where S = S and i = i] wait_sleeps [where S = S and i = i]
    by (cases "wait_timeout_while (sh_delays S ! k) [(0, signalled (interrupt (sh_inner S)))]") (force simp: own.simps)+
next
  case (Backoff k since)
  then have "k < length (sh_delays S)" using assms(1,2) by (force simp: scheduled_def list_all_length)
  moreover let ?now = "sh_time S + since + sh_delays S ! k + 1"
  have "wait_timeout_while (sh_delays S ! k) [(?now - since, b)] = Some (b, ?now - since)" for b by simp
  ultimately have "sstep J U S (Woken i (signalled (interrupt (sh_inner S))))
      (move i (after_wait k (signalled (interrupt (sh_inner S)))) (S\<lparr>sh_time := ?now\<rparr>))"
    using Backoff assms(2) by (intro wait_ends [where now = ?now]) (auto simp del: wait_timeout_while.simps)
  then show ?thesis by force
next
  case (Returned r)
  with assms(3) show ?thesis by simp
qed

lemma stuck_calls_returned:
  "scheduled S \<Longrightarrow> \<forall>l T. sstep J U S l T \<longrightarrow> \<not> own l \<Longrightarrow> list_all is_Returned (sh_points S)"
  using call_goes_on [of S _ J U] by (metis list_all_length)

lemma calls_finish:
  assumes "scheduled S"
  shows "\<exists>ms T. run (sstep J U) S ms T \<and> list_all own ms \<and> list_all is_Returned (sh_points T)"
proof -
  obtain ms T where run: "run (sstep J U) S ms T" "list_all own ms" "\<forall>l V. sstep J U T l V \<longrightarrow> \<not> own l"
    using posting.maximal_run by blast
  with stuck_calls_returned [OF schedules.keeps_run [OF run(1) assms] run(3)] show ?thesis by blast
qed

lemma sharing_scheduled [simp]: "scheduled (sharing c n now calls)"
  by (simp add: scheduled_def sharing_def list_all_iff)

text \<open>
  C13. No call is held up by the others: in any run of a shared client the calls take at most
  \<open>4 * n + 3\<close> steps each, \<open>n\<close> being the length of the schedule; in every state where none of
  them can take a step they have all returned; and from every state some run gets there.
\<close>

theorem every_shared_call_returns:
  assumes "run (sstep J U) (sharing c n now calls) ls S"
  shows "length (filter own ls) \<le> length calls * (4 * length (retry_delays (inner c)) + 3) \<and>
    ((\<forall>l T. sstep J U S l T \<longrightarrow> \<not> own l) \<longrightarrow> list_all is_Returned (sh_points S)) \<and>
    (\<exists>ms T. run (sstep J U) S ms T \<and> list_all own ms \<and> list_all is_Returned (sh_points T))"
proof (intro conjI impI)
  have S: "scheduled S" by (rule schedules.keeps_run [OF assms sharing_scheduled])
  have "length (filter own ls) + call_rank S \<le> call_rank (sharing c n now calls :: ('a, 'b) Sharing)"
    by (rule posting.rank_run [OF assms]) (simp add: list_all_iff)
  then show "length (filter own ls) \<le> length calls * (4 * length (retry_delays (inner c)) + 3)"
    by (simp add: call_rank_def sharing_def sum_list_replicate)
  show "list_all is_Returned (sh_points S)" if "\<forall>l T. sstep J U S l T \<longrightarrow> \<not> own l"
    by (rule stuck_calls_returned [OF S that])
  show "\<exists>ms T. run (sstep J U) S ms T \<and> list_all own ms \<and> list_all is_Returned (sh_points T)"
    by (rule calls_finish [OF S])
qed

subsection \<open>Closing a shared client\<close>

definition stop_inv :: "('n, 'e) Sharing \<Rightarrow> bool" where
  "stop_inv S \<longleftrightarrow> (sh_stopping S \<or> signalled (interrupt (sh_inner S)) \<longrightarrow> closed (sh_client S))"

interpretation stopping: state_invariant "sstep J U" stop_inv for J U
proof
  show "stop_inv T" if "stop_inv S" and "sstep J U S l T" for S l T
    using that(2,1) by (induction rule: sstep.induct) (auto simp: stop_inv_def close_swap_def close_signal_def)
qed

fun may_ask :: "'e point \<Rightarrow> nat" where
  "may_ask (Attempting k) = 1"
| "may_ask _ = 0"

abbreviation stopped :: "('n, 'e) Sharing \<Rightarrow> bool" where
  "stopped S \<equiv> closed (sh_client S) \<and> signalled (interrupt (sh_inner S))"

lemma may_ask_after_attempt [simp]: "may_ask (after_attempt ds k r) = 0"
  by (auto simp: after_attempt_def split: sum.splits)

lemma call_checks_closed: "closed c \<Longrightarrow> call_checks c call = Inl ClientClosed"
  by (simp add: call_checks_def routing_checks_def post_checks_def ensure_open_def)

lemma stopped_step:
  assumes "sstep J U S l T" and "stopped S" and "i < length (sh_points S)"
  shows "stopped T \<and> length (asked_of i l) + may_ask (sh_points T ! i) \<le> may_ask (sh_points S ! i)"
  using assms
  by (induction rule: sstep.induct)
    (auto simp: nth_list_update call_checks_closed after_wait_def close_swap_def close_signal_def signal_def)

lemma stopped_run:
  assumes "run (sstep J U) S ms T" and "stopped S" and "i < length (sh_points S)"
  shows "stopped T \<and> length (sh_points T) = length (sh_points S) \<and>
    length (asked i ms) + may_ask (sh_points T ! i) \<le> may_ask (sh_points S ! i)"
  using assms
proof (induction rule: run.induct)
  case (run_step S ms T l V)
  then show ?case using stopped_step [OF run_step.hyps(2), of i] sstep_calls [OF run_step.hyps(2)] by fastforce
qed simp

text \<open>
  C12. A close ends the retries of every thread: once a call of \<^verbatim>\<open>close\<close> has signalled the
  interrupt, then however many calls are under way and however they go on, a call hands the
  agent at most one more request, and only if it was about to when the signal came; a call
  that waits, that has failed, or that has yet to make its checks hands it none.
\<close>

theorem close_stops_every_retry:
  assumes "run (sstep J U) (sharing c n now calls) ls S" and "\<not> signalled (interrupt (inner c))"
    and "signalled (interrupt (sh_inner S))" and "i < length calls" and "run (sstep J U) S ms T"
  shows "length (asked i ms) \<le> (if \<exists>k. sh_points S ! i = Attempting k then 1 else 0)"
proof -
  have "stop_inv (sharing c n now calls)" using assms(2) by (simp add: stop_inv_def sharing_def)
  from stopping.keeps_run [OF assms(1) this] have "stopped S" using assms(3) by (simp add: stop_inv_def)
  moreover have "i < length (sh_points S)"
    using shared_run [OF assms(1)] assms(4) by (simp add: sharing_inv_def)
  ultimately have "length (asked i ms) \<le> may_ask (sh_points S ! i)"
    using stopped_run [OF assms(5)] by fastforce
  then show ?thesis by (cases "sh_points S ! i") auto
qed

subsection \<open>A server that acknowledges\<close>

abbreviation request_of :: "('v, 'e) serde_json \<Rightarrow> Task IncidentClient \<Rightarrow> Call \<Rightarrow> HttpRequest" where
  "request_of J c call \<equiv> http_request (transport (inner c)) (call_payload J (inner c) call)"

fun served_once :: "HttpRequest \<Rightarrow> 'e point \<Rightarrow> HttpRequest list \<Rightarrow> bool" where
  "served_once q Calling qs = (qs = [])"
| "served_once q (Attempting k) qs = (qs = [])"
| "served_once q (InFlight k) qs = (qs = [q])"
| "served_once q (Returned r) qs = (qs = [q] \<and> \<not> isl r)"
| "served_once q _ qs = False"

lemma served_step:
  assumes "sstep J U S l T" and "l \<noteq> Swap"
    and "\<exists>v n'. send J U (transport (inner c)) (call_payload J (inner c) (sh_calls S ! i)) (sh_net S) =
      ((Inr v :: (IncidentResponse, 'e IncidentError) result), n')" and "flags_apart c (sh_client S)"
    and "\<not> closed (sh_client S)" and "call_checks c (sh_calls S ! i) = (Inr () :: (unit, 'e IncidentError) result)"
    and "i < length (sh_points S)" and "served_once (request_of J c (sh_calls S ! i)) (sh_points S ! i :: 'e point) qs"
  shows "\<not> closed (sh_client T) \<and> served_once (request_of J c (sh_calls S ! i)) (sh_points T ! i) (qs @ asked_of i l)"
proof -
  note same = flags_apart_same [OF assms(4)]
  have "\<not> closed c" using assms(6) by (auto simp: call_checks_closed)
  then have "c\<lparr>closed := closed (sh_client S)\<rparr> = c" using assms(5) by (cases c) simp
  then have checks: "call_checks (sh_client S) (sh_calls S ! i) = (Inr () :: (unit, 'e IncidentError) result)"
    by (simp add: same(5) assms(6))
  from assms(1) show ?thesis
  proof (cases rule: sstep.cases)
    case (call_refused j e)
    then show ?thesis using assms checks by (cases "j = i") auto
  next
    case (answer j k payload x n r)
    then show ?thesis using assms by (cases "j = i") (auto simp: after_attempt_def same)
  qed (use assms in \<open>auto simp: nth_list_update same\<close>)
qed

text \<open>
  A network in which every call's request succeeds as long as the network is \<open>good\<close>, which it
  then stays; and one that counts the exchanges.
\<close>

lemma sent_by_answer:
  assumes "flags_apart c (sh_client S)" and "payload = call_payload J (sh_inner S) (sh_calls S ! i)"
    and "send J U (transport (sh_inner S)) payload (sh_net S) = (r, m)"
  shows "send J U (transport (inner c)) (call_payload J (inner c) (sh_calls S ! i)) (sh_net S) = (r, m)"
  using assms(2,3) by (simp add: flags_apart_same(1,4) [OF assms(1)])

lemma good_net:
  fixes J :: "('v, 'e) serde_json" and U :: "('n, 'e) ureq"
  assumes "\<And>call m. call \<in> set calls \<Longrightarrow> good m \<Longrightarrow>
      \<exists>v m'. send J U (transport (inner c)) (call_payload J (inner c) call) m = (Inr v, m') \<and> good m'"
    and "good n" and "run (sstep J U) (sharing c n now calls) ls S"
  shows "good (sh_net S)"
  using assms(3)
proof (induction "sharing c n now calls :: ('n, 'e) Sharing" ls S rule: run.induct)
  case run_start
  then show ?case using assms(2) by (simp add: sharing_def)
next
  case (run_step ls S l T)
  note inv = shared_run [OF run_step.hyps(1), unfolded sharing_inv_def]
  from run_step.hyps(3) show ?case
  proof (cases rule: sstep.cases)
    case (answer i k payload x m r)
    then have "calls ! i \<in> set calls" using inv by auto
    from assms(1) [OF this run_step.hyps(2)] sent_by_answer [OF _ answer(4,6)] inv answer(2) show ?thesis by auto
  qed (use run_step.hyps(2) in auto)
qed

lemma net_counts:
  fixes J :: "('v, 'e) serde_json" and U :: "('n, 'e) ureq" and counter :: "'n \<Rightarrow> nat"
  assumes "\<And>call m. call \<in> set calls \<Longrightarrow> good m \<Longrightarrow>
      \<exists>v m'. send J U (transport (inner c)) (call_payload J (inner c) call) m = (Inr v, m') \<and>
        good m' \<and> counter m' = Suc (counter m)"
    and "good n" and "run (sstep J U) (sharing c n now calls) ls S"
  shows "counter (sh_net S) = counter n + (\<Sum>i<length calls. exchanges (outcomes i ls))"
  using assms(3)
proof (induction "sharing c n now calls :: ('n, 'e) Sharing" ls S rule: run.induct)
  case run_start
  then show ?case by (simp add: sharing_def)
next
  case (run_step ls S l T)
  note inv = shared_run [OF run_step.hyps(1), unfolded sharing_inv_def]
  have good: "good (sh_net S)"
    by (rule good_net [where good = good and n = n, OF _ assms(2) run_step.hyps(1)]) (use assms(1) in blast)
  have "counter (sh_net T) = counter (sh_net S) + (\<Sum>i<length calls. exchanges (outcome_of i l))"
    using run_step.hyps(3)
  proof (cases rule: sstep.cases)
    case (answer i k payload x m r)
    then have i: "calls ! i \<in> set calls" "i < length calls" using inv by auto
    from assms(1) [OF this(1) good] sent_by_answer [OF _ answer(4,6)] inv answer(2)
    have "counter (sh_net T) = Suc (counter (sh_net S))" by auto
    moreover have "exchanges (outcome_of j l) = (if j = i then 1 else 0)" for j using answer by simp
    ultimately show ?thesis using i(2) by simp
  qed (simp_all add: if_distrib [of exchanges])
  with run_step.hyps(2) show ?case by (simp add: sum.distrib)
qed

lemma shared_posts_served_while:
  fixes J :: "('v, 'e) serde_json" and U :: "('n, 'e) ureq"
  assumes "\<And>call m. call \<in> set calls \<Longrightarrow> good m \<Longrightarrow>
      \<exists>v m'. send J U (transport (inner c)) (call_payload J (inner c) call) m = (Inr v, m') \<and> good m'"
    and "good n" and "list_all (\<lambda>call. call_checks c call = (Inr () :: (unit, 'e IncidentError) result)) calls"
    and "run (sstep J U) (sharing c n now calls) ls S" and "Swap \<notin> set ls"
    and "list_all is_Returned (sh_points S)" and "i < length calls"
  shows "(\<exists>response. sh_points S ! i = Returned (Inr response)) \<and> asked i ls = [request_of J c (calls ! i)]"
proof -
  have checks: "call_checks c (calls ! i) = (Inr () :: (unit, 'e IncidentError) result)"
    using assms(3,7) by (simp add: list_all_length)
  then have fresh: "\<not> closed c" by (auto simp: call_checks_closed)
  have "\<not> closed (sh_client S) \<and> served_once (request_of J c (calls ! i)) (sh_points S ! i) (asked i ls)"
    using assms(4,5)
  proof (induction "sharing c n now calls :: ('n, 'e) Sharing" ls S rule: run.induct)
    case run_start
    then show ?case using fresh assms(7) by (simp add: sharing_def)
  next
    case (run_step ls S l T)
    then have S: "flags_apart c (sh_client S)" "sh_calls S = calls" "length (sh_points S) = length calls"
      using shared_run [OF run_step.hyps(1)] by (simp_all add: sharing_inv_def)
    have "good (sh_net S)" by (rule good_net [OF assms(1,2) run_step.hyps(1)])
    with assms(1) [of "calls ! i"] assms(7) S(2) have "\<exists>v n'. send J U (transport (inner c))
        (call_payload J (inner c) (sh_calls S ! i)) (sh_net S) = ((Inr v :: (IncidentResponse, 'e IncidentError) result), n')"
      by fastforce
    from served_step [OF run_step.hyps(3) _ this S(1), of "asked i ls"] run_step.hyps(2) run_step.prems checks S(2,3)
      assms(7)
    show ?case by auto
  qed
  moreover obtain r where "sh_points S ! i = Returned r"
    using assms(6,7) shared_run [OF assms(4)]
    by (cases "sh_points S ! i") (auto simp: list_all_length sharing_inv_def dest!: spec [of _ i])
  ultimately show ?thesis by (cases r) auto
qed

lemma shared_posts_served:
  fixes J :: "('v, 'e) serde_json" and U :: "('n, 'e) ureq"
  assumes "acknowledges J U"
    and "list_all (\<lambda>call. call_checks c call = (Inr () :: (unit, 'e IncidentError) result)) calls"
    and "run (sstep J U) (sharing c n now calls) ls S" and "Swap \<notin> set ls"
    and "list_all is_Returned (sh_points S)" and "i < length calls"
  shows "(\<exists>response. sh_points S ! i = Returned (Inr response)) \<and> asked i ls = [request_of J c (calls ! i)]"
  by (rule shared_posts_served_while [where good = "\<lambda>_. True", OF _ TrueI assms(2-6)])
    (use send_acknowledged [OF assms(1)] in blast)

text \<open>
  C36. Eight threads or eighty: if the checks of every call pass on the client as it is built
  and the server acknowledges, then in every run without a close in which all calls have
  returned, each returned a response, and each sent exactly one request, which carries its own
  incident under the key the call resolves to, provided \<^verbatim>\<open>serde_json\<close> quotes strings as JSON does.
\<close>

theorem shared_posts_are_all_served:
  fixes J :: "('v, 'e) serde_json" and U :: "('n, 'e) ureq"
  assumes "acknowledges J U"
    and "list_all (\<lambda>call. call_checks c call = (Inr () :: (unit, 'e IncidentError) result)) calls"
    and "run (sstep J U) (sharing c n now calls) ls S" and "Swap \<notin> set ls"
    and "list_all is_Returned (sh_points S)" and "i < length calls"
  shows "(\<exists>response. sh_points S ! i = Returned (Inr response)) \<and> asked i ls = [request_of J c (calls ! i)] \<and>
    (json_quoting (quote J) \<longrightarrow>
       list_all (carries (transport (inner c)) (ca_request (calls ! i)) (call_key (inner c) (calls ! i))) (asked i ls))"
  using shared_posts_served [OF assms] by (simp add: call_payload_carries)

subsection \<open>Concrete runs\<close>

definition sample_call :: Call where
  "sample_call = \<lparr>ca_request = sample_request, ca_routed = False\<rparr>"

definition sample_sharing :: "(nat, unit) Sharing" where
  "sample_sharing = sharing sample_client 0 0 [sample_call, sample_call]"

abbreviation sample_step :: "(nat, unit) Sharing \<Rightarrow> unit slabel \<Rightarrow> (nat, unit) Sharing \<Rightarrow> bool" where
  "sample_step \<equiv> sstep rfc_serde (exchange (sample_net 202))"

lemma sample_call_checks: "call_checks sample_client sample_call = Inr ()"
  by (simp add: call_checks_def sample_call_def)

lemma sample_shared_run:
  "\<exists>ls T. run sample_step sample_sharing ls T \<and> Swap \<notin> set ls \<and> list_all is_Returned (sh_points T)"
proof -
  obtain ls T where "run sample_step sample_sharing ls T" "list_all own ls" "list_all is_Returned (sh_points T)"
    using calls_finish [where S = sample_sharing and J = rfc_serde and U = "exchange (sample_net 202)"]
    by (auto simp: sample_sharing_def)
  moreover from this(2) have "Swap \<notin> set ls" by (auto simp: list_all_iff)
  ultimately show ?thesis by blast
qed

theorem shared_posts_are_all_served_witness:
  "\<exists>ls T. run sample_step sample_sharing ls T \<and> list_all is_Returned (sh_points T) \<and>
     asked 0 ls = [request_of rfc_serde sample_client sample_call] \<and>
     asked 1 ls = [request_of rfc_serde sample_client sample_call]"
proof -
  obtain ls T where run: "run sample_step sample_sharing ls T" "Swap \<notin> set ls" "list_all is_Returned (sh_points T)"
    using sample_shared_run by blast
  have "asked i ls = [request_of rfc_serde sample_client sample_call]" if "i = 0 \<or> i = 1" for i
    using shared_posts_are_all_served [OF sample_net_acknowledges _ run(1) [unfolded sample_sharing_def] run(2,3), of i] that
    by (auto simp: sample_call_checks)
  with run show ?thesis by blast
qed

theorem shared_call_is_sequential_witness:
  "\<exists>ls T r. run sample_step sample_sharing ls T \<and> sh_points T ! 1 = Returned r \<and>
     alone rfc_serde (inner sample_client) sample_call (outcomes 1 ls) = (r, [])"
proof -
  obtain ls T where run: "run sample_step sample_sharing ls T" "Swap \<notin> set ls" "list_all is_Returned (sh_points T)"
    using sample_shared_run by blast
  note start = run(1) [unfolded sample_sharing_def]
  have "length (sh_points T) = 2" using shared_run [OF start] by (simp add: sharing_inv_def)
  then obtain r where r: "sh_points T ! 1 = Returned r"
    using run(3) by (cases "sh_points T ! 1") (auto simp: list_all_length dest: spec [of _ 1])
  have "asked 1 ls \<noteq> []"
    using shared_posts_served [OF sample_net_acknowledges _ start run(2,3), of 1] by (simp add: sample_call_checks)
  with shared_call_is_sequential [OF start _ r] run(1) r show ?thesis by auto
qed

theorem every_shared_call_returns_witness:
  "\<exists>ms T. run sample_step sample_sharing ms T \<and> list_all is_Returned (sh_points T)"
  using every_shared_call_returns [OF run_start, where J = rfc_serde and U = "exchange (sample_net 202)" and c = sample_client
      and n = 0 and now = 0 and calls = "[sample_call, sample_call]"]
  by (auto simp: sample_sharing_def)

definition closed_sharing :: "(nat, unit) Sharing" where
  "closed_sharing =
     \<lparr>sh_client = sample_client\<lparr>closed := True, inner := close_signal (inner sample_client)\<rparr>, sh_net = 0, sh_time = 0,
      sh_calls = [sample_call, sample_call], sh_points = [Attempting 0, Calling], sh_stopping = False\<rparr>"

lemma closed_sharing_run: "run sample_step sample_sharing [Admitted 0, Swap, Stop] closed_sharing"
proof -
  let ?S = "move 0 (Attempting 0) sample_sharing"
  let ?T = "?S\<lparr>sh_client := (sh_client ?S)\<lparr>closed := True\<rparr>, sh_stopping := True\<rparr>"
  have "sample_step sample_sharing (Admitted 0) ?S"
    by (rule call_admitted) (simp_all add: sample_sharing_def sharing_def sample_call_checks)
  moreover have "sample_step ?S Swap ?T"
    by (rule close_won) (simp add: close_swap_def sample_sharing_def sharing_def)
  moreover have "sample_step ?T Stop closed_sharing"
    using close_signals [where S = ?T and J = rfc_serde and U = "exchange (sample_net 202)"]
    by (simp add: closed_sharing_def sample_sharing_def sharing_def move_def)
  ultimately show ?thesis by (auto intro: run_Cons run_start)
qed

theorem close_stops_every_retry_witness:
  "\<exists>ms T. run sample_step closed_sharing ms T \<and> list_all is_Returned (sh_points T) \<and>
     length (asked 0 ms) \<le> 1 \<and> asked 1 ms = []"
proof -
  have "scheduled closed_sharing" by (simp add: scheduled_def closed_sharing_def)
  from calls_finish [OF this] obtain ms T where
    run: "run sample_step closed_sharing ms T" "list_all is_Returned (sh_points T)" by blast
  have "length (asked i ms) \<le> (if \<exists>k. sh_points closed_sharing ! i = Attempting k then 1 else 0)" if "i < 2" for i
    by (rule close_stops_every_retry [OF closed_sharing_run [unfolded sample_sharing_def] _ _ _ run(1)])
      (use that in \<open>simp_all add: interrupt_new_def closed_sharing_def close_signal_def signal_def\<close>)
  from this [of 0] this [of 1] run show ?thesis by (auto simp: closed_sharing_def)
qed

end
