(* ===== verification/Plain_Example.thy ===== *)
theory Plain_Example
  imports Client_Properties
begin

text \<open>
  \<^verbatim>\<open>src/rust/examples/plain.rs\<close>: one incident posted synchronously, one queued. The process
  environment, the system clock as each of the two \<^verbatim>\<open>build\<close> calls reads it, and the \<^verbatim>\<open>{:?}\<close> text of an optional string (which needs the standard library's
  tables of printable characters) are arguments. The value of a run is the result of \<^verbatim>\<open>main\<close>,
  what it printed, the client as it stands when \<^verbatim>\<open>main\<close> reaches \<^verbatim>\<open>close\<close> or drops it on an early
  return, and the world; what the drain does with the queue from there is the subject of
  \<^verbatim>\<open>Dispatcher_Properties\<close> and \<^verbatim>\<open>Dispatcher_Progress\<close>.
\<close>

datatype ('x, 'e) main_error = VarError 'x | SdkError "'e IncidentError"

type_synonym ('x, 'e, 'n) example_run =
  "((unit, ('x, 'e) main_error) result \<times> rstring list) \<times> Task IncidentClient option \<times> 'n World"

definition example_incident :: IncidentRequestBuilder where
  "example_incident =
     with_details (lit ''{\"p99Millis\":1200,\"threshold\":800}'') (
     with_incident_type (lit ''latency'') (
     with_group (lit ''platform'') (
     with_component (lit ''payments'') (
     with_priority 2 (
     with_severity High (
     with_source (lit ''checkout-api'') (
     with_title (lit ''Checkout latency breached the SLO'') request_builder)))))))"

definition example_background :: IncidentRequestBuilder where
  "example_background =
     with_severity Low (with_source (lit ''worker'') (
       with_title (lit ''Background job queue is backing up'') request_builder))"

definition example_line :: "(rstring option \<Rightarrow> rstring) \<Rightarrow> IncidentResponse \<Rightarrow> rstring" where
  "example_line debug response =
     lit ''incident '' @ debug (incident_id response) @ lit '' created (code '' @
       show_int (response_code response) @ lit '')''"

definition example_main ::
  "('v, 'e) serde_json \<Rightarrow> ('n, 'e) Net \<Rightarrow> (rstring option \<Rightarrow> rstring) \<Rightarrow> rstring option \<Rightarrow>
     (rstring \<Rightarrow> (rstring, 'x) result) \<Rightarrow> int \<Rightarrow> int \<Rightarrow> 'n World \<Rightarrow> ('x, 'e, 'n) example_run" where
  "example_main J N debug endpoint_var env wall1 wall2 W =
     (case env (lit ''OPPEX_API_KEY'') of Inl e \<Rightarrow> ((Inl (VarError e), []), None, W) | Inr key \<Rightarrow>
     (case env (lit ''OPPEX_SERVICE_KEY'') of Inl e \<Rightarrow> ((Inl (VarError e), []), None, W) | Inr skey \<Rightarrow>
     (case client_build endpoint_var (clock W) (with_client_service_key skey (with_api_key key client_builder)) of
        Inl e \<Rightarrow> ((Inl (SdkError e), []), None, W)
      | Inr client \<Rightarrow>
     (case build wall1 example_incident of
        Inl e \<Rightarrow> ((Inl (SdkError e), []), Some client, W)
      | Inr request \<Rightarrow>
     (case post J N client request W of
        (Inl e, W') \<Rightarrow> ((Inl (SdkError e), []), Some client, W')
      | (Inr response, W') \<Rightarrow>
          let out = [example_line debug response] in
     (case build wall2 example_background of
        Inl e \<Rightarrow> ((Inl (SdkError e), out), Some client, W')
      | Inr queued \<Rightarrow>
     (case post_async (clock W') (clock W') queued client of
        (Inl e, client') \<Rightarrow> ((Inl (SdkError e), out), Some client', W')
      | (Inr _, client') \<Rightarrow> ((Inr (), out), Some client', W'))))))))"

lemma send_in_acknowledged:
  assumes "acknowledges J (exchange N)"
  shows "\<exists>response W'. send_in J N t payload W = (Inr response, W')"
  using send_acknowledged [OF assms, of t payload "net W"] by (auto simp: send_in_def)

lemma deliver_acknowledged:
  assumes "acknowledges J (exchange N)"
  shows "\<exists>response W'. deliver J N inn request key W = (Inr response, W') \<and>
    map snd (sent W') = map snd (sent W) @
      [http_request (transport inn) (serialize_request J request (option_or (service_key request) key))]"
proof -
  let ?p = "serialize_request J request (option_or (service_key request) key)"
  obtain response W' where s: "send_in J N (transport inn) ?p W = (Inr response, W')"
    using send_in_acknowledged [OF assms] by blast
  with send_in_keeps(1) [of J N "transport inn" ?p W] show ?thesis
    by (simp add: deliver_def execute_with_retry_def retry_loop_Ok Let_def)
qed

lemma example_builds:
  assumes "0 < now_millis now"
  shows "build now example_incident = Inr (requested now example_incident)"
    and "build now example_background = Inr (requested now example_background)"
  using assms
  by (simp_all add: build_eq_Inr problems_Nil_iff effective_timestamp_def example_incident_def
      example_background_def accessors literals is_whitespace_def MAX_SOURCE_LENGTH_def)

lemma example_keyless: "service_key (requested now example_incident) = None"
  by (simp add: requested_def example_incident_def accessors)

lemma example_background_keyless: "service_key (requested now example_background) = None"
  by (simp add: requested_def example_background_def accessors)

definition example_client :: "rstring option \<Rightarrow> instant \<Rightarrow> rstring \<Rightarrow> rstring \<Rightarrow> Task IncidentClient" where
  "example_client endpoint_var now key skey =
     \<lparr>inner = \<lparr>in_service_key = Some skey, transport = transport_new endpoint_var key,
               interrupt = interrupt_new, retry_delays = DEFAULT_RETRY_DELAYS\<rparr>,
      dispatcher = shared_new QUEUE_CAPACITY now, closed = False\<rparr>"

lemma example_client_built:
  "\<not> is_blank key \<Longrightarrow> \<not> is_blank skey \<Longrightarrow>
     client_build endpoint_var now (with_client_service_key skey (with_api_key key client_builder)) =
       Inr (example_client endpoint_var now key skey)"
  by (simp add: client_build_def accessors example_client_def)

lemma example_checks: "post_checks (example_client endpoint_var now key skey) request = Inr ()"
  by (simp add: example_client_def post_checks_def ensure_open_def require_service_key_def)

lemma example_queues:
  "post_async now1 now2 request (example_client endpoint_var now key skey) =
     (Inr (), (example_client endpoint_var now key skey)\<lparr>dispatcher := (shared_new QUEUE_CAPACITY now)
        \<lparr>state := \<lparr>tasks = [\<lparr>t_request = request, t_service_key = Some skey\<rparr>], accepting = True,
                   draining = True, active = 0\<rparr>\<rparr>\<rparr>)"
  unfolding post_async_def example_checks
  by (simp add: client_submit_def example_client_def submit_def shared_new_def QUEUE_CAPACITY_def)

text \<open>
  What \<^verbatim>\<open>main\<close> has done when it reaches \<^verbatim>\<open>close\<close>: the first incident is sent, the second queued.
\<close>

lemma example_posts_one_and_queues_one:
  assumes "acknowledges J (exchange N)" and "json_quoting (quote J)"
    and "env (lit ''OPPEX_API_KEY'') = Inr key" and "\<not> is_blank key"
    and "env (lit ''OPPEX_SERVICE_KEY'') = Inr skey" and "\<not> is_blank skey"
    and "0 < now_millis wall1" and "0 < now_millis wall2"
  shows "\<exists>response client W' q.
    example_main J N debug endpoint_var env wall1 wall2 W =
      ((Inr (), [example_line debug response]), Some client, W') \<and>
    newly_sent W W' = [q] \<and>
    carries (transport_new endpoint_var key) (requested wall1 example_incident) (Some skey) q \<and>
    tasks (state (dispatcher client)) =
      [\<lparr>t_request = requested wall2 example_background, t_service_key = Some skey\<rparr>] \<and> \<not> closed client \<and>
    inner client = inner (example_client endpoint_var (clock W) key skey)"
proof -
  let ?c = "example_client endpoint_var (clock W) key skey"
  let ?r = "requested wall1 example_incident"
  let ?q = "http_request (transport_new endpoint_var key) (serialize_request J ?r (Some skey))"
  let ?t = "\<lparr>t_request = requested wall2 example_background, t_service_key = Some skey\<rparr>"
  let ?d = "?c\<lparr>dispatcher := (shared_new QUEUE_CAPACITY (clock W))
      \<lparr>state := \<lparr>tasks = [?t], accepting = True, draining = True, active = 0\<rparr>\<rparr>\<rparr>"
  obtain response W' where d: "deliver J N (inner ?c) ?r (in_service_key (inner ?c)) W = (Inr response, W')"
    and sent: "map snd (sent W') = map snd (sent W) @ [?q]"
    using deliver_acknowledged [OF assms(1), of "inner ?c" ?r "in_service_key (inner ?c)" W]
    by (auto simp: example_keyless example_client_def)
  then have "post J N ?c ?r W = (Inr response, W')" by (simp add: post_def example_checks)
  then have "example_main J N debug endpoint_var env wall1 wall2 W =
      ((Inr (), [example_line debug response]), Some ?d, W')"
    using assms(3-8)
    by (simp add: example_main_def example_client_built example_builds example_queues)
  moreover have "newly_sent W W' = [?q]" by (simp add: newly_sent_def sent)
  moreover have "carries (transport_new endpoint_var key) ?r (Some skey) ?q"
    by (rule http_request_carries [OF assms(2)])
  moreover have "tasks (state (dispatcher ?d)) = [?t]" "\<not> closed ?d" "inner ?d = inner ?c"
    by (simp_all add: example_client_def)
  ultimately show ?thesis by blast
qed

definition sample_env :: "rstring \<Rightarrow> (rstring, unit) result" where
  "sample_env name = (if name = lit ''OPPEX_API_KEY'' then Inr (lit ''api-key'')
     else if name = lit ''OPPEX_SERVICE_KEY'' then Inr (lit ''svc'') else Inl ())"

end
