(* ===== verification/Orderly_Close.thy ===== *)
theory Orderly_Close
  imports Client_Threads Plain_Example
begin

text \<open>
  A client that is closed in good order: the calls on it have returned, none of its tasks has
  panicked, and its queue was never full. Nothing it accepted is lost; the example program is
  such a client.
\<close>

subsection \<open>Nothing is lost before the close\<close>

lemma no_eviction_below_capacity:
  fixes S :: "'task System"
  assumes "run dstep (dispatcher_new n cap now) ls S" and "length (history accepted_by ls) \<le> cap"
  shows "history evicted_by ls = []"
  using assms
proof (induction "dispatcher_new n cap now :: 'task System" ls S rule: run.induct)
  case (run_step ls S l T)
  then have before: "history evicted_by ls = []" by simp
  show ?case
  proof (cases l)
    case (Accept t ev)
    with run_step.hyps(3) have ev: "ev = evicted (shared S)" by (auto elim: dstep_AcceptE)
    have "length (tasks (st S)) \<le> length (history accepted_by ls)"
      using reachable_fifo [OF run_step.hyps(1)] by simp
    also have "\<dots> < cap" using run_step.prems Accept by simp
    finally have "length (tasks (st S)) < capacity (shared S)"
      using run_constants [OF run_step.hyps(1)] by (simp add: dispatcher_new_def shared_new_def)
    then show ?thesis using before Accept ev by (simp add: evicted_def)
  qed (use before in simp_all)
qed simp

lemma open_abandons_nothing:
  fixes S :: "'task System"
  assumes "run dstep (dispatcher_new n cap now) ls S" and "accepting (st S)"
  shows "history abandoned_by ls = []"
  using assms
proof (induction "dispatcher_new n cap now :: 'task System" ls S rule: run.induct)
  case (run_step ls S l T)
  have "closer T = Open" using reachable_phase_inv [OF run.run_step [OF run_step.hyps(1,3)]] run_step.prems
    by (simp add: phase_inv_def)
  with run_step.hyps(3) have "accepting (st S) \<and> abandoned_by l = []"
    using run_step.prems by (cases rule: dstep.cases) (auto simp: sections dest: submit_fields)
  with run_step.hyps(2) show ?case by simp
qed simp

lemma panics_show:
  assumes "run dstep S ls T" and "Panicked \<notin> set (workers T)"
  shows "history panicked_by ls = []"
  using assms
proof (induction rule: run.induct)
  case (run_step S ls T l U)
  have "\<not> panic_inv T" using run_step.prems panics.keeps [OF _ run_step.hyps(2)] by (auto simp: panic_inv_def)
  then have "history panicked_by ls = []" using run_step.IH by (simp add: panic_inv_def)
  moreover have "panicked_by l = []"
    using run_step.hyps(2) run_step.prems by (cases rule: dstep.cases) (auto simp: set_update_memI)
  ultimately show ?case by simp
qed simp

subsection \<open>What a close loses\<close>

inductive_cases cstep_ShutE: "cstep C (Disp (Shut timeout)) C'"
inductive_cases cstep_AbandonE: "cstep C (Disp (Abandon ts)) C'"

text \<open>The deadline of a drain is no earlier than the start of its close and the timeout.\<close>

definition deadline_inv :: "instant \<Rightarrow> duration \<Rightarrow> 'task System \<Rightarrow> bool" where
  "deadline_inv start timeout S \<longleftrightarrow> \<not> accepting (st S) \<and> start \<le> time S \<and>
     (case closer S of
        Open \<Rightarrow> False
      | Begun d \<Rightarrow> d = timeout
      | Draining deadline \<Rightarrow> start + timeout \<le> deadline
      | DrainWait deadline \<Rightarrow> start + timeout \<le> deadline
      | _ \<Rightarrow> True)"

interpretation deadline: state_invariant dstep "deadline_inv start timeout" for start timeout
proof
  fix S T :: "'task System" and l
  assume inv: "deadline_inv start timeout S" and "dstep S l T"
  from this(2) show "deadline_inv start timeout T"
  proof (cases rule: dstep.cases)
    case (submit_accept now' t warned sh)
    then show ?thesis using inv submit_fields [OF submit_accept(3)] by (simp add: deadline_inv_def)
  next
    case (submit_refuse now' t warned sh)
    then show ?thesis using inv submit_fields [OF submit_refuse(3)] by (simp add: deadline_inv_def)
  next
    case (work_notify i)
    then show ?thesis using inv by (cases "closer S") (auto simp: deadline_inv_def)
  next
    case (close_notify abandoned)
    then show ?thesis using inv by (simp add: deadline_inv_def)
  qed (use inv in \<open>auto simp: deadline_inv_def sections\<close>)
qed

lemma shut_deadline_inv: "dstep S (Shut timeout) S' \<Longrightarrow> deadline_inv (time S) timeout S'"
  by (auto elim!: dstep_ShutE simp: deadline_inv_def sections)

lemma idle_workers_run_nothing: "busy_count ws = 0 \<Longrightarrow> running_tasks ws = [] \<and> Panicked \<notin> set ws"
proof -
  assume "busy_count ws = 0"
  then have "\<not> busy w" if "w \<in> set ws" for w using that by (auto simp: busy_count_def filter_empty_conv)
  then have "running_of w = [] \<and> w \<noteq> Panicked" if "w \<in> set ws" for w using that by (cases w) fastforce+
  then show ?thesis by (auto simp: running_tasks_def)
qed

lemma open_history:
  assumes "run dstep (dispatcher_new n cap now) ls S" and "dstep S (Shut timeout) S'" and "run dstep S' ms T"
  shows "history abandoned_by ls = []" and "history accepted_by ms = []" and "history evicted_by ms = []"
proof -
  have "accepting (st S)" and shut: "\<not> accepting (st S')" using assms(2) by (auto elim!: dstep_ShutE simp: sections)
  then show "history abandoned_by ls = []" using open_abandons_nothing [OF assms(1)] by simp
  show none: "history accepted_by ms = []" using closed_dispatcher_accepts_nothing [OF assms(3) shut] by simp
  have "accepted_by l = [] \<Longrightarrow> evicted_by l = []" for l :: "'a label" by (cases l) auto
  with none show "history evicted_by ms = []" by auto
qed

lemma drained_history:
  assumes "run dstep S' ms T" and "\<not> accepting (st S')" and "\<not> drained (closer T)"
  shows "history abandoned_by ms = []"
  using assms
proof (induction rule: run.induct)
  case (run_step S ls T l U)
  have "\<not> accepting (st T)"
    using closed_dispatcher_accepts_nothing [OF run_step.hyps(1)] run_step.prems(1) by simp
  with run_step.hyps(2) run_step.prems(2) have "\<not> drained (closer T) \<and> abandoned_by l = []"
    by (cases rule: dstep.cases) (auto simp: sections)
  with run_step show ?case by simp
qed simp

lemma close_loses:
  assumes "run cstep (client_start inn now) ls C" and "cstep C (Disp (Shut CLOSE_DRAIN_TIMEOUT)) C'"
    and "run cstep C' ms T" and "cstep T (Disp (Abandon ts)) T'"
  shows "mset (history accepted_by (dlabels ls)) =
      mset (history evicted_by (dlabels ls)) + mset (history finished_by (dlabels (ls @ ms))) +
      mset (history panicked_by (dlabels (ls @ ms))) + mset (running_tasks (workers (cl_dispatcher T))) + mset ts"
    and "time (cl_dispatcher T) \<le> time (cl_dispatcher C) + CLOSE_DRAIN_TIMEOUT \<Longrightarrow>
      ts = [] \<and> running_tasks (workers (cl_dispatcher T)) = [] \<and> history panicked_by (dlabels (ls @ ms)) = []"
    and "history accepted_by (dlabels ms) = []"
proof -
  let ?D = "cl_dispatcher T"
  note D = client_run_projects [OF assms(1)]
  have shut: "dstep (cl_dispatcher C) (Shut CLOSE_DRAIN_TIMEOUT) (cl_dispatcher C')"
    using assms(2) by (auto elim: cstep_ShutE)
  have E: "run dstep (cl_dispatcher C') (dlabels ms) ?D" by (rule projection.inv_run [OF assms(3) refl])
  have leave: "dstep ?D (Abandon ts) (cl_dispatcher T')" using assms(4) by (auto elim: cstep_AbandonE)
  then obtain deadline where d: "closer ?D = Draining deadline" "drain_turn deadline (time ?D) (st ?D) = None"
    and ts: "ts = tasks (st ?D)" by (auto elim!: dstep_AbandonE)
  have there: "run dstep (dispatcher_new WORKER_COUNT QUEUE_CAPACITY now)
      (dlabels ls @ [Shut CLOSE_DRAIN_TIMEOUT] @ dlabels ms) ?D"
    using run_append [OF E run_step [OF D shut]] by simp
  show "history accepted_by (dlabels ms) = []" by (rule open_history(2) [OF D shut E])
  have closed: "\<not> accepting (st (cl_dispatcher C'))" using shut by (auto elim!: dstep_ShutE simp: sections)
  have gone: "history abandoned_by (dlabels ms) = []" by (rule drained_history [OF E closed]) (simp add: d(1))
  from every_task_has_one_fate [OF there]
  show "mset (history accepted_by (dlabels ls)) =
      mset (history evicted_by (dlabels ls)) + mset (history finished_by (dlabels (ls @ ms))) +
      mset (history panicked_by (dlabels (ls @ ms))) + mset (running_tasks (workers ?D)) + mset ts"
    by (simp add: open_history [OF D shut E] gone ts)
  assume "time ?D \<le> time (cl_dispatcher C) + CLOSE_DRAIN_TIMEOUT"
  moreover have "deadline_inv (time (cl_dispatcher C)) CLOSE_DRAIN_TIMEOUT ?D"
    by (rule deadline.keeps_run [OF E shut_deadline_inv [OF shut]])
  ultimately have "\<not> deadline < time ?D" using d(1) by (simp add: deadline_inv_def)
  with d(2) have empty: "tasks (st ?D) = []" "active (st ?D) = 0" by (simp_all add: drain_turn_None)
  have "active_inv ?D" by (rule reachable_active_inv [OF there]) (simp add: WORKER_COUNT_def)
  with empty have idle: "running_tasks (workers ?D) = [] \<and> Panicked \<notin> set (workers ?D)"
    by (intro idle_workers_run_nothing) (simp add: active_inv_def)
  then have "history panicked_by (dlabels ls @ [Shut CLOSE_DRAIN_TIMEOUT] @ dlabels ms) = []"
    by (intro panics_show [OF there]) simp
  with empty ts idle show "ts = [] \<and> running_tasks (workers ?D) = [] \<and> history panicked_by (dlabels (ls @ ms)) = []"
    by simp
qed

text \<open>
  C11. What a close loses: let a client be closed in any run of its threads, and let the drain
  end, whatever callers, workers, panics and spurious wake-ups did meanwhile. Nothing is accepted
  after the close has begun, and the tasks accepted before it are those evicted from a full queue before the close, those run to
  their end, those that panicked, those still running, and those the drain abandons, counted with
  multiplicity. If the drain ends within the ten seconds from the start of the close, it abandons
  nothing, nothing is running and nothing has panicked: all that was accepted and not evicted has
  been run to its end, exactly once.
\<close>

theorem close_loses_only_what_outlasts_it:
  assumes "run cstep (client_start inn now) ls C" and "cstep C (Disp (Shut CLOSE_DRAIN_TIMEOUT)) C'"
    and "run cstep C' ms T" and "cstep T (Disp (Abandon ts)) T'"
  shows "history accepted_by (dlabels ms) = [] \<and>
    mset (history accepted_by (dlabels ls)) =
      mset (history evicted_by (dlabels ls)) + mset (history finished_by (dlabels (ls @ ms))) +
      mset (history panicked_by (dlabels (ls @ ms))) + mset (running_tasks (workers (cl_dispatcher T))) + mset ts \<and>
    (time (cl_dispatcher T) \<le> time (cl_dispatcher C) + CLOSE_DRAIN_TIMEOUT \<longrightarrow>
       ts = [] \<and> running_tasks (workers (cl_dispatcher T)) = [] \<and> history panicked_by (dlabels (ls @ ms)) = [] \<and>
       mset (history accepted_by (dlabels ls)) =
         mset (history evicted_by (dlabels ls)) + mset (history finished_by (dlabels (ls @ ms))))"
  using close_loses [OF assms] by simp

subsection \<open>A close in good order\<close>

lemma orderly_close:
  assumes "run cstep (client_start inn now) ls C"
    and "length (history accepted_by (dlabels ls)) \<le> QUEUE_CAPACITY"
    and "pending (cl_dispatcher C) = 0" and "Panicked \<notin> set (workers (cl_dispatcher C))"
    and "cstep C (Disp (Shut CLOSE_DRAIN_TIMEOUT)) C'"
    and "run cstep C' ms T" and "undisturbed_run (dlabels ms)"
  shows "length (filter progress (dlabels ms)) \<le> rank (cl_dispatcher C')"
    and "stuck (cl_dispatcher T) \<Longrightarrow>
      mset (history finished_by (dlabels (ls @ ms))) = mset (history accepted_by (dlabels ls)) \<and>
      drain_turn deadline at (st (cl_dispatcher T)) = None \<and> fst (drain_finish (st (cl_dispatcher T))) = 0"
proof -
  note D = client_run_projects [OF assms(1)]
  have shut: "dstep (cl_dispatcher C) (Shut CLOSE_DRAIN_TIMEOUT) (cl_dispatcher C')"
    using assms(5) by (auto elim: cstep_ShutE)
  have E: "run dstep (cl_dispatcher C') (dlabels ms) (cl_dispatcher T)" by (rule projection.inv_run [OF assms(6) refl])
  have "0 < WORKER_COUNT" "WORKER_COUNT < 2 ^ 64" by (simp_all add: WORKER_COUNT_def)
  note quiet = quiet_close [OF D this assms(3,4) shut E assms(7), of deadline at]
  then show "length (filter progress (dlabels ms)) \<le> rank (cl_dispatcher C')" by simp
  have "mset (history accepted_by (dlabels ls)) = mset (history finished_by (dlabels ls)) +
      mset (running_tasks (workers (cl_dispatcher C))) + mset (tasks (st (cl_dispatcher C)))"
    using every_task_has_one_fate [OF D] no_eviction_below_capacity [OF D assms(2)] open_history(1) [OF D shut E]
      panics_show [OF D assms(4)] by simp
  moreover assume "stuck (cl_dispatcher T)"
  ultimately show "mset (history finished_by (dlabels (ls @ ms))) = mset (history accepted_by (dlabels ls)) \<and>
      drain_turn deadline at (st (cl_dispatcher T)) = None \<and> fst (drain_finish (st (cl_dispatcher T))) = 0"
    using quiet by (simp add: ac_simps)
qed

text \<open>Steps of the dispatcher's own threads are steps of the client.\<close>

lemma background_run:
  "run dstep D ms E \<Longrightarrow> list_all background ms \<Longrightarrow> cl_dispatcher C = D \<Longrightarrow>
     run cstep C (map Disp ms) (C\<lparr>cl_dispatcher := E\<rparr>)"
proof (induction rule: run.induct)
  case (run_step D ms E l F)
  then have "cstep (C\<lparr>cl_dispatcher := E\<rparr>) (Disp l) (C\<lparr>cl_dispatcher := F\<rparr>)"
    using dispatcher_step [of "C\<lparr>cl_dispatcher := E\<rparr>" l F] by simp
  with run_step show ?case by (auto intro: run.run_step)
qed (simp add: run_start)

lemma progress_background: "progress l \<Longrightarrow> background l"
  by (cases l) auto

lemma dlabels_Disp [simp]: "concat (map (dlabel \<circ> Disp) ms) = ms"
  by (induction ms) auto

lemma workers_finish:
  "\<exists>ms D. run cstep C (map Disp ms) (C\<lparr>cl_dispatcher := D\<rparr>) \<and> list_all progress ms \<and> stuck D"
proof -
  obtain ms D where "run dstep (cl_dispatcher C) ms D" "list_all progress ms" "stuck D"
    using working.maximal_run [of "cl_dispatcher C"] by (auto simp: stuck_def)
  moreover from this have "list_all background ms" by (auto simp: list_all_iff progress_background)
  ultimately show ?thesis using background_run [of "cl_dispatcher C" ms D C] by blast
qed

text \<open>
  C10. A close in good order has all the time it needs: take a client on which at most as many
  tasks were accepted as its queue holds, whose submissions have all notified and none of whose
  tasks has panicked, and close it. As long as the drain has not given up at its deadline, no
  task panics and no worker wakes spuriously, however the threads are scheduled, the workers take
  at most \<open>rank\<close> steps; once they can take none, every task accepted over the life of the client
  has been run to its end, exactly once, and the drain ends at its next turn, at any time, and
  abandons nothing. And some schedule of the workers does get there.
\<close>

theorem orderly_close_loses_nothing:
  assumes "run cstep (client_start inn now) ls C"
    and "length (history accepted_by (dlabels ls)) \<le> QUEUE_CAPACITY"
    and "pending (cl_dispatcher C) = 0" and "Panicked \<notin> set (workers (cl_dispatcher C))"
    and "cstep C (Disp (Shut CLOSE_DRAIN_TIMEOUT)) C'"
  shows "(\<forall>ms T. run cstep C' ms T \<longrightarrow> undisturbed_run (dlabels ms) \<longrightarrow>
      length (filter progress (dlabels ms)) \<le> rank (cl_dispatcher C') \<and>
      (stuck (cl_dispatcher T) \<longrightarrow>
         mset (history finished_by (dlabels (ls @ ms))) = mset (history accepted_by (dlabels ls)) \<and>
         (\<forall>deadline at. drain_turn deadline at (st (cl_dispatcher T)) = None) \<and>
         fst (drain_finish (st (cl_dispatcher T))) = 0)) \<and>
    (\<exists>ms T. run cstep C' ms T \<and> list_all progress (dlabels ms) \<and> stuck (cl_dispatcher T))"
proof (intro conjI allI impI)
  fix ms T deadline at
  assume run: "run cstep C' ms T" "undisturbed_run (dlabels ms)"
  note close = orderly_close [OF assms this]
  show "length (filter progress (dlabels ms)) \<le> rank (cl_dispatcher C')" by (rule close(1))
  assume stuck: "stuck (cl_dispatcher T)"
  show "mset (history finished_by (dlabels (ls @ ms))) = mset (history accepted_by (dlabels ls))"
    "drain_turn deadline at (st (cl_dispatcher T)) = None" "fst (drain_finish (st (cl_dispatcher T))) = 0"
    using close(2) [OF stuck, of deadline at] by simp_all
next
  show "\<exists>ms T. run cstep C' ms T \<and> list_all progress (dlabels ms) \<and> stuck (cl_dispatcher T)"
    using workers_finish [of C'] by fastforce
qed

subsection \<open>The example\<close>

lemma mset_eq_singleton: "mset xs = mset [x] \<Longrightarrow> xs = [x]"
  by simp

lemma run_task_acknowledged:
  assumes "acknowledges J (exchange N)" and "json_quoting (quote J)"
  shows "\<exists>q W'. run_task J N inn t W = (None, W') \<and> newly_sent W W' = [q] \<and>
    carries (transport inn) (t_request t) (option_or (service_key (t_request t)) (t_service_key t)) q"
proof -
  obtain response W' where "deliver J N inn (t_request t) (t_service_key t) W = (Inr response, W')"
    and "map snd (sent W') = map snd (sent W) @
      [http_request (transport inn) (serialize_request J (t_request t) (option_or (service_key (t_request t)) (t_service_key t)))]"
    using deliver_acknowledged [OF assms(1)] by blast
  then show ?thesis
    using http_request_carries [OF assms(2)] by (auto simp: run_task_def newly_sent_def)
qed

lemma example_client_start:
  "client_of (client_start (inner (example_client endpoint_var now key skey)) now) = example_client endpoint_var now key skey"
  by (simp add: client_of_def client_start_def example_client_def dispatcher_new_def)

lemma close_one_task:
  assumes "run cstep (client_start inn now) ls C" and "history accepted_by (dlabels ls) = [t]"
    and "cstep C (Disp (Shut CLOSE_DRAIN_TIMEOUT)) C'" and "run cstep C' ms T" and "cstep T (Disp (Abandon ts)) T'"
  shows "mset [t] = mset (history finished_by (dlabels (ls @ ms))) + mset (history panicked_by (dlabels (ls @ ms))) +
      mset (running_tasks (workers (cl_dispatcher T))) + mset ts"
    and "time (cl_dispatcher T) \<le> time (cl_dispatcher C) + CLOSE_DRAIN_TIMEOUT \<Longrightarrow>
      history finished_by (dlabels (ls @ ms)) = [t] \<and> ts = []"
proof -
  note D = client_run_projects [OF assms(1)]
  have none: "history evicted_by (dlabels ls) = []"
    by (rule no_eviction_below_capacity [OF D]) (simp add: assms(2) QUEUE_CAPACITY_def)
  note loses = close_loses [OF assms(1,3,4,5), unfolded assms(2) none]
  show all: "mset [t] = mset (history finished_by (dlabels (ls @ ms))) + mset (history panicked_by (dlabels (ls @ ms))) +
      mset (running_tasks (workers (cl_dispatcher T))) + mset ts"
    using loses(1) by simp
  assume "time (cl_dispatcher T) \<le> time (cl_dispatcher C) + CLOSE_DRAIN_TIMEOUT"
  from loses(2) [OF this] have z: "ts = []" "running_tasks (workers (cl_dispatcher T)) = []"
    "history panicked_by (dlabels (ls @ ms)) = []" by blast+
  have "mset (history finished_by (dlabels (ls @ ms))) = mset [t]"
    using all unfolding z by (simp only: mset.simps add_0_right)
  then show "history finished_by (dlabels (ls @ ms)) = [t] \<and> ts = []"
    using z(1) by (blast intro: mset_eq_singleton)
qed

text \<open>
  C39. The example delivers both its incidents, unless its close runs out of time: with both keys
  in the environment, a server that acknowledges, and a clock past the epoch at both readings,
  \<^verbatim>\<open>main\<close> prints one line and returns, having sent exactly one request, which carries the first
  incident, with the second in the queue of a client still open. Let the threads of that client,
  from its \<^verbatim>\<open>build\<close> on, run in any way with just this task accepted, let the client be closed and
  its drain end, with any panics, spurious wake-ups and delays: if the drain ends within ten
  seconds the task has been run to its end, once, and nothing is abandoned; in any case it has
  ended, panicked, is running or is abandoned. Running it sends exactly one request, which
  carries the second incident under the service key from the environment, although the interrupt
  is signalled by then.
\<close>

theorem example_delivers_both_incidents:
  assumes "acknowledges J (exchange N)" and "json_quoting (quote J)"
    and "env (lit ''OPPEX_API_KEY'') = Inr key" and "\<not> is_blank key"
    and "env (lit ''OPPEX_SERVICE_KEY'') = Inr skey" and "\<not> is_blank skey"
    and "0 < now_millis wall1" and "0 < now_millis wall2"
  shows "\<exists>response client W' q t.
    example_main J N debug endpoint_var env wall1 wall2 W =
      ((Inr (), [example_line debug response]), Some client, W') \<and>
    newly_sent W W' = [q] \<and>
    carries (transport_new endpoint_var key) (requested wall1 example_incident) (Some skey) q \<and>
    tasks (state (dispatcher client)) = [t] \<and> \<not> closed client \<and>
    t = \<lparr>t_request = requested wall2 example_background, t_service_key = Some skey\<rparr> \<and>
    inner client = inner (example_client endpoint_var (clock W) key skey) \<and>
    client_build endpoint_var (clock W) (with_client_service_key skey (with_api_key key client_builder)) =
      (Inr (client_of (client_start (inner client) (clock W))) :: (Task IncidentClient, unit IncidentError) result) \<and>
    (\<forall>ls C C' ms T ts T' V. run cstep (client_start (inner client) (clock W)) ls C \<and>
       history accepted_by (dlabels ls) = [t] \<and> cstep C (Disp (Shut CLOSE_DRAIN_TIMEOUT)) C' \<and>
       run cstep C' ms T \<and> cstep T (Disp (Abandon ts)) T' \<longrightarrow>
         mset [t] = mset (history finished_by (dlabels (ls @ ms))) + mset (history panicked_by (dlabels (ls @ ms))) +
           mset (running_tasks (workers (cl_dispatcher T))) + mset ts \<and>
         (time (cl_dispatcher T) \<le> time (cl_dispatcher C) + CLOSE_DRAIN_TIMEOUT \<longrightarrow>
            history finished_by (dlabels (ls @ ms)) = [t] \<and> ts = []) \<and>
         (\<exists>q V'. run_task J N (cl_inner T) t V = (None, V') \<and> newly_sent V V' = [q] \<and>
            carries (transport_new endpoint_var key) (requested wall2 example_background) (Some skey) q))"
proof -
  let ?c = "example_client endpoint_var (clock W) key skey"
  let ?t = "\<lparr>t_request = requested wall2 example_background, t_service_key = Some skey\<rparr>"
  obtain response client W' q where main: "example_main J N debug endpoint_var env wall1 wall2 W =
      ((Inr (), [example_line debug response]), Some client, W')" "newly_sent W W' = [q]"
    "carries (transport_new endpoint_var key) (requested wall1 example_incident) (Some skey) q"
    "tasks (state (dispatcher client)) = [?t]" "\<not> closed client" "inner client = inner ?c"
    using example_posts_one_and_queues_one [OF assms] by blast
  have built: "client_build endpoint_var (clock W) (with_client_service_key skey (with_api_key key client_builder)) =
      (Inr (client_of (client_start (inner client) (clock W))) :: (Task IncidentClient, unit IncidentError) result)"
    using assms(4,6) by (simp add: main(6) example_client_start example_client_built)
  have closes: "mset [?t] = mset (history finished_by (dlabels (ls @ ms))) + mset (history panicked_by (dlabels (ls @ ms))) +
        mset (running_tasks (workers (cl_dispatcher T))) + mset ts \<and>
      (time (cl_dispatcher T) \<le> time (cl_dispatcher C) + CLOSE_DRAIN_TIMEOUT \<longrightarrow>
         history finished_by (dlabels (ls @ ms)) = [?t] \<and> ts = []) \<and>
      (\<exists>q V'. run_task J N (cl_inner T) ?t V = (None, V') \<and> newly_sent V V' = [q] \<and>
         carries (transport_new endpoint_var key) (requested wall2 example_background) (Some skey) q)"
    if run: "run cstep (client_start (inner client) (clock W)) ls C" "history accepted_by (dlabels ls) = [?t]"
      "cstep C (Disp (Shut CLOSE_DRAIN_TIMEOUT)) C'" "run cstep C' ms T" "cstep T (Disp (Abandon ts)) T'"
    for ls C C' ms T ts T' V
  proof -
    have "run cstep (client_start (inner client) (clock W)) ((ls @ [Disp (Shut CLOSE_DRAIN_TIMEOUT)]) @ ms) T"
      by (rule run_append [OF run(4) run_step [OF run(1,3)]])
    then obtain i where "cl_inner T = (inner ?c)\<lparr>interrupt := i\<rparr>"
      using run_inner main(6) by (fastforce simp: client_start_def)
    then have "transport (cl_inner T) = transport_new endpoint_var key" by (simp add: example_client_def)
    then have "\<exists>q V'. run_task J N (cl_inner T) ?t V = (None, V') \<and> newly_sent V V' = [q] \<and>
        carries (transport_new endpoint_var key) (requested wall2 example_background) (Some skey) q"
      using run_task_acknowledged [OF assms(1,2), of "cl_inner T" ?t V] by (simp add: example_background_keyless)
    with close_one_task [OF run] show ?thesis by blast
  qed
  show ?thesis
    by (rule exI [of _ response], rule exI [of _ client], rule exI [of _ W'], rule exI [of _ q], rule exI [of _ ?t])
      (intro conjI main built refl allI impI closes; elim conjE; assumption)
qed

subsection \<open>Concrete runs\<close>

text \<open>
  One task queued on the client of \<^verbatim>\<open>Client_Threads\<close>, its submission over, and a call of \<^verbatim>\<open>close\<close>
  about to reach the dispatcher.
\<close>

abbreviation svc_task :: "IncidentRequest \<Rightarrow> Task" where
  "svc_task request \<equiv> \<lparr>t_request = request, t_service_key = Some (lit ''svc'')\<rparr>"

definition settled :: "Task \<Rightarrow> ClientSystem" where
  "settled t = demo [] Signalled (race [t] True [Looping, Looping] Open 0)"

definition settled_labels :: "Task \<Rightarrow> clabel list" where
  "settled_labels t = [Checked t, Disp (Accept t []), Disp Notified, CloseWon, Signal]"

lemma settled_run: "run cstep (client_start demo_inner 0) (settled_labels (svc_task r)) (settled (svc_task r))"
proof -
  let ?t = "svc_task r"
  let ?queued = "race [?t] True [Looping, Looping] Open 1" and ?settled = "race [?t] True [Looping, Looping] Open 0"
  have check: "cstep (demo [] NotClosing demo_open) (Checked ?t) (demo [?t] NotClosing demo_open)"
    using async_check [of "demo [] NotClosing demo_open" r ?t]
    by (simp add: demo_def client_of_def demo_inner_def post_checks_def ensure_open_def require_service_key_def)
  have "dstep demo_open (Accept ?t []) ?queued"
    using race_submit [of "[Looping, Looping]" Open 0 ?t] by simp
  then have acc: "cstep (demo [?t] NotClosing demo_open) (Disp (Accept ?t [])) (demo [] NotClosing ?queued)"
    using async_accepted [of ?t "demo [?t] NotClosing demo_open" "[]" ?queued] by (simp add: demo_def)
  have "dstep ?queued Notified ?settled"
    using notify_one_nobody [of ?queued] by (simp add: race_def)
  then have notified: "cstep (demo [] NotClosing ?queued) (Disp Notified) (demo [] NotClosing ?settled)"
    using dispatcher_step [of "demo [] NotClosing ?queued" Notified ?settled] by (simp add: demo_def)
  show ?thesis
    unfolding demo_start settled_labels_def settled_def
    by (intro crun_Cons [OF check] crun_Cons [OF acc] crun_Cons [OF notified] crun_Cons [OF demo_swap]
        crun_Cons [OF demo_signal] run_start)
qed

definition shutting :: "Task \<Rightarrow> ClientSystem" where
  "shutting t = (settled t)\<lparr>cl_closing := Handed, cl_dispatcher := race [t] False [Looping, Looping] (Begun CLOSE_DRAIN_TIMEOUT) 0\<rparr>"

lemma settled_shut: "cstep (settled t) (Disp (Shut CLOSE_DRAIN_TIMEOUT)) (shutting t)"
proof -
  have "dstep (cl_dispatcher (settled t)) (Shut CLOSE_DRAIN_TIMEOUT) (race [t] False [Looping, Looping] (Begun CLOSE_DRAIN_TIMEOUT) 0)"
    using race_close by (simp add: settled_def demo_def)
  then show ?thesis unfolding shutting_def by (intro close_dispatcher) (simp_all add: settled_def demo_def)
qed

lemma settled_fields:
  "pending (cl_dispatcher (settled t)) = 0" "Panicked \<notin> set (workers (cl_dispatcher (settled t)))"
  "time (cl_dispatcher (settled t)) = 0" "length (history accepted_by (dlabels (settled_labels t))) \<le> QUEUE_CAPACITY"
  "history accepted_by (dlabels (settled_labels t)) = [t]"
  by (simp_all add: settled_def settled_labels_def demo_def race_def QUEUE_CAPACITY_def)

lemma progress_step_closer:
  "dstep S l T \<Longrightarrow> progress l \<Longrightarrow> closer S = Begun d \<Longrightarrow> closer T = Begun d \<and> time T = time S"
  by (cases rule: dstep.cases) auto

lemma progress_closer:
  "run dstep S ms T \<Longrightarrow> list_all progress ms \<Longrightarrow> closer S = Begun d \<Longrightarrow> closer T = Begun d \<and> time T = time S"
proof (induction rule: run.induct)
  case (run_step S ls T l U)
  then show ?case using progress_step_closer [of T l U d] by simp
qed simp

text \<open>The workers run the task, and the drain finds nothing left at its first turn.\<close>

lemma settled_drains:
  "\<exists>ms T T'. run cstep (shutting (svc_task r)) ms T \<and> cstep T (Disp (Abandon [])) T' \<and> time (cl_dispatcher T) = 0"
proof -
  let ?C = "shutting (svc_task r)"
  obtain ms D where run: "run cstep ?C (map Disp ms) (?C\<lparr>cl_dispatcher := D\<rparr>)" "list_all progress ms" "stuck D"
    using workers_finish by blast
  let ?T = "?C\<lparr>cl_dispatcher := D\<lparr>closer := Draining CLOSE_DRAIN_TIMEOUT\<rparr>\<rparr>"
  let ?D' = "set_state ((st D)\<lparr>draining := False, tasks := []\<rparr>) (cl_dispatcher ?T)\<lparr>closer := Drained 0\<rparr>"
  have "run dstep (cl_dispatcher ?C) ms D" using projection.inv_run [OF run(1) refl] by simp
  from progress_closer [OF this run(2)] have D: "closer D = Begun CLOSE_DRAIN_TIMEOUT" "time D = 0"
    by (simp_all add: shutting_def race_def)
  have drained: "drain_turn CLOSE_DRAIN_TIMEOUT 0 (st D) = None" "tasks (st D) = []"
    using orderly_close(2) [OF settled_run settled_fields(4,1,2) settled_shut run(1), of CLOSE_DRAIN_TIMEOUT 0] run(2,3)
    by (simp_all add: progress_undisturbed drain_finish_def)
  have "dstep D Internal (cl_dispatcher ?T)" using close_deadline [OF D(1)] D(2) by simp
  then have "cstep (?C\<lparr>cl_dispatcher := D\<rparr>) (Disp Internal) ?T"
    using dispatcher_step [of "?C\<lparr>cl_dispatcher := D\<rparr>" Internal] by simp
  then have "run cstep ?C (map Disp ms @ [Disp Internal]) ?T" by (rule run_step [OF run(1)])
  moreover have "dstep (cl_dispatcher ?T) (Abandon []) ?D'"
    using drain_leave [of "cl_dispatcher ?T" CLOSE_DRAIN_TIMEOUT 0 "(st D)\<lparr>draining := False, tasks := []\<rparr>"] drained D
    by (simp add: drain_finish_def)
  then have "cstep ?T (Disp (Abandon [])) (?T\<lparr>cl_dispatcher := ?D'\<rparr>)"
    using dispatcher_step [of ?T "Abandon []" ?D'] by simp
  ultimately show ?thesis using D(2) by fastforce
qed

theorem orderly_close_loses_nothing_witness:
  "\<exists>ms T. run cstep (shutting demo_task) ms T \<and> stuck (cl_dispatcher T) \<and>
     mset (history finished_by (dlabels (settled_labels demo_task @ ms))) = mset [demo_task] \<and>
     fst (drain_finish (st (cl_dispatcher T))) = 0"
proof -
  have t: "demo_task = svc_task sample_request" by (simp add: demo_task_def)
  note close = orderly_close_loses_nothing [OF settled_run settled_fields(4,1,2) settled_shut, unfolded settled_fields(5)]
  from close [THEN conjunct2] obtain ms T where run: "run cstep (shutting demo_task) ms T"
    "list_all progress (dlabels ms)" "stuck (cl_dispatcher T)" unfolding t by blast
  with close [THEN conjunct1, rule_format, OF run(1) [unfolded t] progress_undisturbed [OF run(2)]] show ?thesis
    unfolding t by blast
qed

theorem close_loses_only_what_outlasts_it_witness:
  "\<exists>ms T T'. run cstep (shutting demo_task) ms T \<and> cstep T (Disp (Abandon [])) T' \<and>
     mset [demo_task] = mset (history finished_by (dlabels (settled_labels demo_task @ ms)))"
proof -
  have t: "demo_task = svc_task sample_request" by (simp add: demo_task_def)
  obtain ms T T' where run: "run cstep (shutting (svc_task sample_request)) ms T" "cstep T (Disp (Abandon [])) T'"
    "time (cl_dispatcher T) = 0" using settled_drains by blast
  have "history evicted_by (dlabels (settled_labels (svc_task sample_request))) = []" by (simp add: settled_labels_def)
  with close_loses_only_what_outlasts_it [OF settled_run settled_shut run(1,2), unfolded settled_fields(5)] run(3)
  have "mset [svc_task sample_request] =
      mset (history finished_by (dlabels (settled_labels (svc_task sample_request) @ ms)))" by simp
  with run(1,2) show ?thesis unfolding t by blast
qed

theorem example_delivers_both_incidents_witness:
  "\<exists>response client W' t ls ms T.
    example_main rfc_serde (sample_net 202) (\<lambda>_. []) None sample_env 1700000000000000000 1700000000500000000 (sample_world None) =
      ((Inr (), [example_line (\<lambda>_. []) response]), Some client, W') \<and>
    tasks (state (dispatcher client)) = [t] \<and>
    run cstep (client_start (inner client) 0) (ls @ [Disp (Shut CLOSE_DRAIN_TIMEOUT)] @ ms) T \<and>
    history finished_by (dlabels (ls @ ms)) = [t]"
proof -
  let ?t = "svc_task (requested 1700000000500000000 example_background)"
  have "sample_env (lit ''OPPEX_API_KEY'') = Inr (lit ''api-key'')"
    "sample_env (lit ''OPPEX_SERVICE_KEY'') = Inr (lit ''svc'')"
    by (simp_all add: sample_env_def literals)
  moreover have "\<not> is_blank (lit ''api-key'')" "\<not> is_blank (lit ''svc'')" by (simp_all add: is_whitespace_def)
  moreover have "0 < now_millis 1700000000000000000" "0 < now_millis 1700000000500000000"
    by (simp_all add: now_millis_def i64_try_from_def)
  ultimately obtain response client W' t where ex:
    "example_main rfc_serde (sample_net 202) (\<lambda>_. []) None sample_env 1700000000000000000 1700000000500000000 (sample_world None) =
      ((Inr (), [example_line (\<lambda>_. []) response]), Some client, W')"
    "tasks (state (dispatcher client)) = [t]" "t = ?t"
    "inner client = inner (example_client None (clock (sample_world None)) (lit ''api-key'') (lit ''svc''))"
    "\<forall>ls C C' ms T ts T'. run cstep (client_start (inner client) (clock (sample_world None))) ls C \<and>
       history accepted_by (dlabels ls) = [t] \<and> cstep C (Disp (Shut CLOSE_DRAIN_TIMEOUT)) C' \<and>
       run cstep C' ms T \<and> cstep T (Disp (Abandon ts)) T' \<longrightarrow>
       (time (cl_dispatcher T) \<le> time (cl_dispatcher C) + CLOSE_DRAIN_TIMEOUT \<longrightarrow> history finished_by (dlabels (ls @ ms)) = [t])"
    using example_delivers_both_incidents [OF sample_net_acknowledges rfc_serde_quoting,
        of sample_env "lit ''api-key''" "lit ''svc''" 1700000000000000000 1700000000500000000 "\<lambda>_. []" None "sample_world None"]
    by blast
  have inn: "inner client = demo_inner" by (simp add: ex(4) example_client_def demo_inner_def sample_transport_def)
  have now: "clock (sample_world None) = 0" by (simp add: sample_world_def)
  obtain ms T T' where run: "run cstep (shutting ?t) ms T" "cstep T (Disp (Abandon [])) T'" "time (cl_dispatcher T) = 0"
    using settled_drains by blast
  have "history finished_by (dlabels (settled_labels ?t @ ms)) = [t]"
    using ex(5) [unfolded inn now ex(3), rule_format, of "settled_labels ?t" "settled ?t" "shutting ?t" ms T "[]" T']
      settled_run settled_fields(3,5) settled_shut run ex(3) by simp
  moreover have "run cstep (client_start (inner client) 0) ((settled_labels ?t @ [Disp (Shut CLOSE_DRAIN_TIMEOUT)]) @ ms) T"
    unfolding inn by (rule run_append [OF run(1) run_step [OF settled_run settled_shut]])
  ultimately show ?thesis using ex(1,2) by (metis append_assoc)
qed

end
