(* ===== verification/Smoke_Consumer.thy ===== *)
theory Smoke_Consumer
  imports Client_Properties
begin

text \<open>
  \<^verbatim>\<open>src/.github/smoke/rust/src/main.rs\<close>: the program the release workflow runs against the
  published crate. A check is a function of the process: the environment variable that
  redirects the endpoint and the world of its deliveries. The text of \<^verbatim>\<open>{:?}\<close> comes from code
  the compiler derives, and the version from the manifest: both are arguments.
\<close>

record 'n Process =
  env_endpoint :: "rstring option" \<comment> \<open>\<^verbatim>\<open>OPPEX_TEST_ENDPOINT_URL\<close>\<close>
  world :: "'n World"
  wall_clock :: int \<comment> \<open>nanoseconds since the Unix epoch, as \<^verbatim>\<open>SystemTime::now\<close> reads them\<close>

text \<open>How a check ends early: with the error it returns, or in a panic of \<^verbatim>\<open>expect_err\<close>.\<close>

datatype abort = Failure rstring | Panic_in rstring

type_synonym 'n check = "'n Process \<Rightarrow> (unit, abort) result \<times> 'n Process"

record 'e Debug =
  debug_error :: "'e IncidentError \<Rightarrow> rstring"
  debug_posted :: "(IncidentResponse, 'e IncidentError) result \<Rightarrow> rstring"

definition LOOPBACK :: rstring where
  "LOOPBACK = lit ''http://127.0.0.1:1''"

definition check_real_transport_failure ::
  "('v, 'e) serde_json \<Rightarrow> ('n, 'e) Net \<Rightarrow> 'e Debug \<Rightarrow> 'n check" where
  "check_real_transport_failure J N dbg P0 =
     (let P = P0\<lparr>env_endpoint := Some LOOPBACK\<rparr> in
      case client_build (env_endpoint P) (clock (world P))
             (with_client_service_key (lit ''wrong-service-key'') (with_api_key (lit ''wrong-api-key'') client_builder)) of
        Inl failure \<Rightarrow>
          (Inl (Failure (lit ''building the client: '' @ error_to_string (failure :: 'e IncidentError))), P)
      | Inr client \<Rightarrow>
      (case build (wall_clock P)
             (with_severity Medium (with_source (lit ''github-actions'') (
                with_title (lit ''valid title'') request_builder))) of
        Inl failure \<Rightarrow>
          (Inl (Failure (lit ''building the request: '' @ error_to_string (failure :: 'e IncidentError))), P)
      | Inr request \<Rightarrow>
      (case post J N (client :: Task IncidentClient) request (world P) of
        (Inr _, W) \<Rightarrow> (Inl (Panic_in (lit ''a refused connection must fail'')), P\<lparr>world := W\<rparr>)
      | (Inl failure, W) \<Rightarrow>
          let P = P\<lparr>world := W\<rparr> in
          if \<not> is_delivery failure
          then (Inl (Failure (lit ''a refused connection must be a Delivery error: '' @ debug_error dbg failure)), P)
          else if status_code failure \<noteq> None
          then (Inl (Failure (lit ''a refused connection must carry no HTTP status'')), P)
          else if \<not> str_contains (error_to_string failure) (lit ''attempts'')
          then (Inl (Failure (lit ''an exhausted network failure must report its attempts: '' @
                  error_to_string failure)), P)
          else (Inr (), P\<lparr>env_endpoint := None\<rparr>))))"

definition check_validation ::
  "('v, 'e) serde_json \<Rightarrow> ('n, 'e) Net \<Rightarrow> 'e Debug \<Rightarrow> 'n check" where
  "check_validation J N dbg P =
     (case build (wall_clock P)
             (with_severity Medium (with_source (lit ''github-actions'') (with_title [] request_builder))) of
        Inr _ \<Rightarrow> (Inl (Panic_in (lit ''a blank title must be rejected'')), P)
      | Inl failure \<Rightarrow>
      if \<not> is_invalid_request failure
      then (Inl (Failure (lit ''a blank title must be an InvalidRequest: '' @ debug_error dbg failure)), P)
      else
      (case client_build (env_endpoint P) (clock (world P))
             (with_client_service_key (lit ''external-consumer-service-key'') (
                with_api_key (lit ''external-consumer-api-key'') client_builder)) of
        Inl failure \<Rightarrow>
          (Inl (Failure (lit ''building the client: '' @ error_to_string (failure :: 'e IncidentError))), P)
      | Inr client \<Rightarrow>
      (case build (wall_clock P)
             (with_severity Low (with_source (lit ''github-actions'') (
                with_title (lit ''Closed client test'') request_builder))) of
        Inl failure \<Rightarrow>
          (Inl (Failure (lit ''building the request: '' @ error_to_string (failure :: 'e IncidentError))), P)
      | Inr request \<Rightarrow>
      (case post J N (close_alone (clock (world P)) (client :: Task IncidentClient)) request (world P) of
        (Inl ClientClosed, W) \<Rightarrow> (Inr (), P\<lparr>world := W\<rparr>)
      | (other, W) \<Rightarrow>
          (Inl (Failure (lit ''a post after close must report a closed client: '' @ debug_posted dbg other)),
           P\<lparr>world := W\<rparr>)))))"

definition check_service_routing ::
  "('v, 'e) serde_json \<Rightarrow> ('n, 'e) Net \<Rightarrow> 'e Debug \<Rightarrow> 'n check" where
  "check_service_routing J N dbg P =
     (case client_build (env_endpoint P) (clock (world P))
             (with_api_key (lit ''external-consumer-api-key'') client_builder) of
        Inl failure \<Rightarrow>
          (Inl (Failure (lit ''building the client: '' @ error_to_string (failure :: 'e IncidentError))), P)
      | Inr client \<Rightarrow>
      (case build (wall_clock P)
             (with_service_key (lit ''external-consumer-service-key'') (with_severity Low (
                with_source (lit ''github-actions'') (with_title (lit ''Service routing test'') request_builder)))) of
        Inl failure \<Rightarrow>
          (Inl (Failure (lit ''building the request: '' @ error_to_string (failure :: 'e IncidentError))), P)
      | Inr keyed \<Rightarrow>
      (case post_with_service_routing J N (client :: Task IncidentClient) keyed (world P) of
        (Inl (InvalidRequest _), W) \<Rightarrow> (Inr (), P\<lparr>world := W\<rparr>)
      | (other, W) \<Rightarrow>
          (Inl (Failure (lit ''service routing must refuse a request service key: '' @ debug_posted dbg other)),
           P\<lparr>world := W\<rparr>))))"

text \<open>\<^verbatim>\<open>check()?;\<close> followed by the rest.\<close>

definition and_then :: "'n check \<Rightarrow> 'n check \<Rightarrow> 'n check" where
  "and_then first rest P =
     (case first P of (Inl failure, P') \<Rightarrow> (Inl failure, P') | (Inr _, P') \<Rightarrow> rest P')"

definition smoke_run :: "('v, 'e) serde_json \<Rightarrow> ('n, 'e) Net \<Rightarrow> 'e Debug \<Rightarrow> 'n check" where
  "smoke_run J N dbg P =
     (if DEFAULT_ENDPOINT \<noteq> lit ''https://api.oppex.ai/api/v1/incident/post''
      then (Inl (Failure (lit ''unexpected endpoint '' @ DEFAULT_ENDPOINT)), P)
      else if severity_value Medium \<noteq> 3
      then (Inl (Failure (lit ''unexpected severity mapping'')), P)
      else and_then (check_real_transport_failure J N dbg)
             (and_then (check_validation J N dbg) (check_service_routing J N dbg)) P)"

text \<open>\<^verbatim>\<open>main\<close>: the exit code and the line on standard output or standard error.\<close>

datatype exit_code = SUCCESS | FAILURE | PANICKED

definition smoke_main ::
  "('v, 'e) serde_json \<Rightarrow> ('n, 'e) Net \<Rightarrow> 'e Debug \<Rightarrow> rstring \<Rightarrow> 'n Process \<Rightarrow> (exit_code \<times> rstring) \<times> 'n Process" where
  "smoke_main J N dbg version P =
     (case smoke_run J N dbg P of
        (Inr _, P') \<Rightarrow> ((SUCCESS, lit ''EXTERNAL_CONSUMER_OK rust sdk='' @ version), P')
      | (Inl (Failure failure), P') \<Rightarrow> ((FAILURE, failure), P')
      | (Inl (Panic_in message), P') \<Rightarrow> ((PANICKED, message), P'))"

subsection \<open>What the checks build\<close>

definition smoke_client :: "rstring option \<Rightarrow> instant \<Rightarrow> rstring \<Rightarrow> rstring option \<Rightarrow> Task IncidentClient" where
  "smoke_client env now key skey =
     \<lparr>inner = \<lparr>in_service_key = skey, transport = transport_new env key, interrupt = interrupt_new,
               retry_delays = DEFAULT_RETRY_DELAYS\<rparr>,
      dispatcher = shared_new QUEUE_CAPACITY now, closed = False\<rparr>"

lemma client_build_keyed:
  "\<not> is_blank key \<Longrightarrow> \<not> is_blank skey \<Longrightarrow>
     client_build env now (with_client_service_key skey (with_api_key key client_builder)) =
       Inr (smoke_client env now key (Some skey))"
  by (simp add: client_build_def accessors smoke_client_def)

lemma client_build_unkeyed:
  "\<not> is_blank key \<Longrightarrow>
     client_build env now (with_api_key key client_builder) = Inr (smoke_client env now key None)"
  by (simp add: client_build_def accessors smoke_client_def)

lemma smoke_client_post_checks: "post_checks (smoke_client env now key (Some skey)) request = Inr ()"
  by (simp add: smoke_client_def post_checks_def ensure_open_def require_service_key_def)

definition smoke_request :: "int \<Rightarrow> rstring \<Rightarrow> Severity \<Rightarrow> rstring option \<Rightarrow> IncidentRequest" where
  "smoke_request now name sev skey =
     \<lparr>rq_service_key = skey, rq_title = name, rq_source = lit ''github-actions'', rq_severity = sev,
      rq_priority = 1, rq_src_timestamp = now_millis now, rq_component = None, rq_group = None,
      rq_incident_type = None, rq_details = None\<rparr>"

lemma build_plain:
  "\<not> is_blank name \<Longrightarrow> 0 < now_millis now \<Longrightarrow>
     build now (with_severity sev (with_source (lit ''github-actions'') (with_title name request_builder))) =
       Inr (smoke_request now name sev None)"
  by (simp add: build_eq_Inr problems_Nil_iff requested_def effective_timestamp_def smoke_request_def accessors
      literals is_whitespace_def MAX_SOURCE_LENGTH_def)

lemma build_keyed:
  "\<not> is_blank name \<Longrightarrow> \<not> is_blank skey \<Longrightarrow> 0 < now_millis now \<Longrightarrow>
     build now (with_service_key skey (with_severity sev (with_source (lit ''github-actions'') (
       with_title name request_builder)))) = Inr (smoke_request now name sev (Some skey))"
  by (simp add: build_eq_Inr problems_Nil_iff requested_def effective_timestamp_def smoke_request_def accessors
      literals is_whitespace_def MAX_SOURCE_LENGTH_def)

lemma build_blank_title:
  "build now (with_severity sev (with_source src (with_title [] request_builder))) =
     Inl (InvalidRequest (lit ''title must not be blank''))"
  by (simp add: build_def require_non_blank_def accessors literals)

subsection \<open>What the checks find\<close>

lemma attempts_reported:
  "1 < n \<Longrightarrow> str_contains (error_to_string (with_attempt_count (refused_error cause) n)) (lit ''attempts'')"
  using str_containsI [of "lit ''incident delivery failed before a response was received (after '' @ show_nat n @ [32]"
      "lit ''attempts''" "[41]"]
  by (simp add: refused_error_def literals)


definition smoke_transport :: Transport where
  "smoke_transport = transport_new (Some LOOPBACK) (lit ''wrong-api-key'')"

lemma smoke_transport_url: "endpoint_url smoke_transport = LOOPBACK"
  by (simp add: smoke_transport_def transport_new_def with_endpoint_def endpoint_def LOOPBACK_def literals)

lemma transport_failure_passes:
  fixes J :: "('v, 'e) serde_json" and N :: "('n, 'e) Net"
  assumes "refuses N LOOPBACK" and "signal_at (world P) = None" and "0 < now_millis (wall_clock P)"
  shows "\<exists>W payload. check_real_transport_failure J N dbg P = (Inr (), P\<lparr>env_endpoint := None, world := W\<rparr>) \<and>
    signal_at W = None \<and>
    map snd (sent W) = map snd (sent (world P)) @ replicate 6 (http_request smoke_transport payload)"
proof -
  let ?c = "smoke_client (Some LOOPBACK) (clock (world P)) (lit ''wrong-api-key'') (Some (lit ''wrong-service-key''))"
  let ?r = "smoke_request (wall_clock P) (lit ''valid title'') Medium None"
  obtain r W where p: "post J N ?c ?r (world P) = (r, W)" by fastforce
  then have "deliver J N (inner ?c) ?r (in_service_key (inner ?c)) (world P) = (r, W)"
    by (simp add: post_def smoke_client_post_checks)
  from deliver_refused [OF this] assms(1,2) obtain cause payload where
    r: "r = Inl (with_attempt_count (refused_error cause) 6)" and W: "signal_at W = None"
      "map snd (sent W) = map snd (sent (world P)) @ replicate 6 (http_request smoke_transport payload)"
    by (auto simp: smoke_client_def smoke_transport_def smoke_transport_url [unfolded smoke_transport_def]
        interrupt_new_def DEFAULT_RETRY_DELAYS_def eval_nat_numeral)
  have f: "is_delivery (with_attempt_count (refused_error cause) 6)"
    "status_code (with_attempt_count (refused_error cause) 6) = None"
    by (simp_all add: refused_error_def)
  have "check_real_transport_failure J N dbg P = (Inr (), P\<lparr>env_endpoint := None, world := W\<rparr>)"
    using p r f attempts_reported [of 6 cause] assms(3)
    by (simp add: check_real_transport_failure_def client_build_keyed build_plain is_whitespace_def Let_def)
  with W show ?thesis by blast
qed

lemma validation_passes: "0 < now_millis (wall_clock P) \<Longrightarrow> check_validation J N dbg P = (Inr (), P)"
  by (simp add: check_validation_def build_blank_title client_build_keyed build_plain is_whitespace_def
      post_def post_checks_def ensure_open_def close_alone_returns)

lemma routing_passes: "0 < now_millis (wall_clock P) \<Longrightarrow> check_service_routing J N dbg P = (Inr (), P)"
  by (simp add: check_service_routing_def client_build_unkeyed build_keyed is_whitespace_def
      post_with_service_routing_def routing_checks_def ensure_open_def require_service_routable_def
      smoke_client_def smoke_request_def service_key_def invalid_def)

text \<open>
  C40. The smoke consumer proves what its workflow greps for: on a machine whose loopback port 1
  refuses connections and whose clock is past the epoch, with any \<^verbatim>\<open>serde_json\<close>, the program
  exits successfully with its sentinel line. It makes exactly six HTTP attempts, all of them
  to that port, so nothing reaches the Oppex service, and it leaves the environment variable
  unset.
\<close>

theorem smoke_consumer_succeeds:
  assumes "refuses N LOOPBACK" and "signal_at (world P) = None" and "0 < now_millis (wall_clock P)"
  shows "\<exists>P'. smoke_main J N dbg version P =
      ((SUCCESS, lit ''EXTERNAL_CONSUMER_OK rust sdk='' @ version), P') \<and>
    env_endpoint P' = None \<and> length (newly_sent (world P) (world P')) = 6 \<and>
    list_all (\<lambda>q. hq_url q = LOOPBACK) (newly_sent (world P) (world P'))"
proof -
  obtain W payload where real: "check_real_transport_failure J N dbg P = (Inr (), P\<lparr>env_endpoint := None, world := W\<rparr>)"
    and sent: "map snd (sent W) = map snd (sent (world P)) @ replicate 6 (http_request smoke_transport payload)"
    using transport_failure_passes [OF assms] by blast
  have "smoke_run J N dbg P = (Inr (), P\<lparr>env_endpoint := None, world := W\<rparr>)"
    using real assms(3)
    by (simp add: smoke_run_def and_then_def validation_passes routing_passes DEFAULT_ENDPOINT_def)
  moreover have "newly_sent (world P) W = replicate 6 (http_request smoke_transport payload)"
    by (simp add: newly_sent_def sent)
  moreover have "hq_url (http_request smoke_transport payload) = LOOPBACK"
    using smoke_transport_url by (simp add: http_request_def)
  ultimately show ?thesis by (simp add: smoke_main_def list_all_iff)
qed

text \<open>A machine that refuses every connection.\<close>

definition refusing_net :: "(nat, unit) Net" where
  "refusing_net = \<lparr>exchange = (\<lambda>config q n. (Inl (), n + 1)), took = (\<lambda>_. 1)\<rparr>"

definition quiet_process :: "nat Process" where
  "quiet_process = \<lparr>env_endpoint = None, world = sample_world None, wall_clock = 1700000000000000000\<rparr>"

definition terse_debug :: "unit Debug" where
  "terse_debug = \<lparr>debug_error = (\<lambda>_. []), debug_posted = (\<lambda>_. [])\<rparr>"

theorem smoke_consumer_succeeds_witness:
  "\<exists>P'. smoke_main rfc_serde refusing_net terse_debug (lit ''0.1.0'') quiet_process =
      ((SUCCESS, lit ''EXTERNAL_CONSUMER_OK rust sdk=0.1.0''), P') \<and>
    length (newly_sent (sample_world None) (world P')) = 6"
proof -
  have "refuses refusing_net LOOPBACK" by (simp add: refuses_def refusing_net_def)
  moreover have "signal_at (world quiet_process) = None" "0 < now_millis (wall_clock quiet_process)"
    by (simp_all add: quiet_process_def sample_world_def now_millis_def i64_try_from_def)
  ultimately show ?thesis
    using smoke_consumer_succeeds [of refusing_net quiet_process rfc_serde terse_debug "lit ''0.1.0''"]
    by (auto simp: quiet_process_def literals)
qed

end
