(* ===== verification/Utf8.thy ===== *)
theory Utf8
  imports Prelude
begin

text \<open>
  UTF-8 as Rust's \<^verbatim>\<open>String\<close> uses it: the bytes of a string, \<^verbatim>\<open>from_utf8\<close> and
  \<^verbatim>\<open>from_utf8_lossy\<close>, which replaces each maximal ill-formed subsequence by U+FFFD. A byte is
  its value; a string is a list of scalar values, as in \<^verbatim>\<open>Prelude\<close>.
\<close>

type_synonym byte = nat

definition scalar :: "rchar \<Rightarrow> bool" where
  "scalar c \<longleftrightarrow> c < 55296 \<or> (57344 \<le> c \<and> c < 1114112)"

definition utf8_char :: "rchar \<Rightarrow> byte list" where
  "utf8_char c =
     (if c < 128 then [c]
      else if c < 2048 then [192 + c div 64, 128 + c mod 64]
      else if c < 65536 then [224 + c div 4096, 128 + c div 64 mod 64, 128 + c mod 64]
      else [240 + c div 262144, 128 + c div 4096 mod 64, 128 + c div 64 mod 64, 128 + c mod 64])"

definition utf8 :: "rstring \<Rightarrow> byte list" where
  "utf8 s = concat (map utf8_char s)"

definition continues :: "byte \<Rightarrow> bool" where
  "continues b \<longleftrightarrow> 128 \<le> b \<and> b \<le> 191"

text \<open>The second byte, after a lead byte that would otherwise allow an overlong form, a surrogate
  or a value past U+10FFFF.\<close>

definition second_ok :: "byte \<Rightarrow> byte \<Rightarrow> bool" where
  "second_ok lead b \<longleftrightarrow>
     (if lead = 224 then 160 \<le> b \<and> b \<le> 191
      else if lead = 237 then 128 \<le> b \<and> b \<le> 159
      else if lead = 240 then 144 \<le> b \<and> b \<le> 191
      else if lead = 244 then 128 \<le> b \<and> b \<le> 143
      else continues b)"

text \<open>The first character of a byte sequence, or \<open>None\<close> for an ill-formed beginning, and the rest.\<close>

fun utf8_step :: "byte list \<Rightarrow> rchar option \<times> byte list" where
  "utf8_step [] = (None, [])"
| "utf8_step (b # bs) =
     (if b < 128 then (Some b, bs)
      else if 194 \<le> b \<and> b \<le> 223 then
        (case bs of
           b1 # r1 \<Rightarrow> if continues b1 then (Some ((b - 192) * 64 + (b1 - 128)), r1) else (None, bs)
         | [] \<Rightarrow> (None, []))
      else if 224 \<le> b \<and> b \<le> 239 then
        (case bs of
           b1 # r1 \<Rightarrow>
             if second_ok b b1 then
               (case r1 of
                  b2 # r2 \<Rightarrow>
                    if continues b2 then (Some ((b - 224) * 4096 + (b1 - 128) * 64 + (b2 - 128)), r2) else (None, r1)
                | [] \<Rightarrow> (None, []))
             else (None, bs)
         | [] \<Rightarrow> (None, []))
      else if 240 \<le> b \<and> b \<le> 244 then
        (case bs of
           b1 # r1 \<Rightarrow>
             if second_ok b b1 then
               (case r1 of
                  b2 # r2 \<Rightarrow>
                    if continues b2 then
                      (case r2 of
                         b3 # r3 \<Rightarrow>
                           if continues b3
                           then (Some ((b - 240) * 262144 + (b1 - 128) * 4096 + (b2 - 128) * 64 + (b3 - 128)), r3)
                           else (None, r2)
                       | [] \<Rightarrow> (None, []))
                    else (None, r1)
                | [] \<Rightarrow> (None, []))
             else (None, bs)
         | [] \<Rightarrow> (None, []))
      else (None, bs))"

lemma utf8_step_shorter: "utf8_step (b # bs) = (c, r) \<Longrightarrow> length r \<le> length bs"
  by (auto split: list.splits if_splits)

declare utf8_step.simps [simp del]

function decode :: "byte list \<Rightarrow> rchar option list" where
  "decode [] = []"
| "decode (b # bs) = (case utf8_step (b # bs) of (c, r) \<Rightarrow> c # decode r)"
  by pat_completeness auto
termination
  by (relation "measure length") (auto dest: utf8_step_shorter [OF sym])

definition from_utf8 :: "byte list \<Rightarrow> rstring option" where
  "from_utf8 bs = (if None \<in> set (decode bs) then None else Some (map the (decode bs)))"

definition from_utf8_lossy :: "byte list \<Rightarrow> rstring" where
  "from_utf8_lossy bs = map (\<lambda>c. case c of Some x \<Rightarrow> x | None \<Rightarrow> 65533) (decode bs)"

subsection \<open>Round trip\<close>

lemma base64_digits:
  fixes c :: nat
  obtains w x y z where "c = 262144 * w + 4096 * x + 64 * y + z" "x < 64" "y < 64" "z < 64"
    "c div 262144 = w" "c div 4096 = 64 * w + x" "c div 4096 mod 64 = x" "c div 64 mod 64 = y" "c mod 64 = z"
proof -
  have a: "c div 4096 = c div 64 div 64" and b: "c div 262144 = c div 4096 div 64"
    by (simp_all add: div_mult2_eq [symmetric])
  have "64 * (c div 64) + c mod 64 = c" "64 * (c div 4096) + c div 64 mod 64 = c div 64"
    "64 * (c div 262144) + c div 4096 mod 64 = c div 4096"
    unfolding b unfolding a by (rule mult_div_mod_eq)+
  then have "c = 262144 * (c div 262144) + 4096 * (c div 4096 mod 64) + 64 * (c div 64 mod 64) + c mod 64"
    "c div 4096 = 64 * (c div 262144) + c div 4096 mod 64"
    by linarith+
  then show ?thesis by (intro that) simp_all
qed

lemma utf8_step_char:
  assumes "scalar c"
  shows "utf8_step (utf8_char c @ bs) = (Some c, bs)"
proof -
  obtain w x y z where c: "c = 262144 * w + 4096 * x + 64 * y + z" "x < 64" "y < 64" "z < 64"
    and d: "c div 262144 = w" "c div 4096 = 64 * w + x" "c div 4096 mod 64 = x" "c div 64 mod 64 = y" "c mod 64 = z"
    by (rule base64_digits)
  consider "c < 128" | "128 \<le> c" "c < 2048" | "2048 \<le> c" "c < 65536" | "65536 \<le> c" by linarith
  then show ?thesis
  proof cases
    case 1
    then show ?thesis by (simp add: utf8_char_def utf8_step.simps)
  next
    case 2
    have zero: "w = 0" "x = 0" using 2 c(1) by linarith+
    moreover have "2 \<le> y" "y < 32" using 2 c(1,4) zero by linarith+
    moreover have "c div 64 = y" using c zero by simp
    ultimately show ?thesis using 2 c d by (simp add: utf8_char_def utf8_step.simps continues_def)
  next
    case 3
    have w: "w = 0" using 3 c(1) by linarith
    have "x < 16" using 3 c(1) by linarith
    moreover have "x = 0 \<Longrightarrow> 32 \<le> y" using 3 c(1,4) w by linarith
    moreover have "x = 13 \<Longrightarrow> y < 32" using c w assms unfolding scalar_def by linarith
    moreover have "c = 4096 * x + 64 * y + z" "c div 4096 = x" using c(1) d(2) w by simp_all
    ultimately show ?thesis
      using 3 c(3,4) d(4,5) by (auto simp: utf8_char_def utf8_step.simps continues_def second_ok_def)
  next
    case 4
    have "w \<le> 4" using c assms unfolding scalar_def by linarith
    moreover have "w = 0 \<Longrightarrow> 16 \<le> x" using 4 c by linarith
    moreover have "w = 4 \<Longrightarrow> x < 16" using c assms unfolding scalar_def by linarith
    ultimately show ?thesis
      using 4 c d by (auto simp: utf8_char_def utf8_step.simps continues_def second_ok_def)
  qed
qed

lemma utf8_char_nonempty: "utf8_char c \<noteq> []"
  by (simp add: utf8_char_def)

lemma decode_utf8_append: "list_all scalar s \<Longrightarrow> decode (utf8 s @ bs) = map Some s @ decode bs"
proof (induction s)
  case (Cons c s)
  obtain b r where "utf8_char c = b # r" using utf8_char_nonempty [of c] by (cases "utf8_char c") auto
  moreover have "utf8_step (utf8_char c @ utf8 s @ bs) = (Some c, utf8 s @ bs)"
    using Cons.prems by (simp add: utf8_step_char)
  ultimately show ?case using Cons by (simp add: utf8_def)
qed (simp add: utf8_def)

lemma from_utf8_utf8: "list_all scalar s \<Longrightarrow> from_utf8 (utf8 s) = Some s"
  using decode_utf8_append [of s "[]"] by (auto simp: from_utf8_def comp_def)

lemma from_utf8_lossy_utf8: "list_all scalar s \<Longrightarrow> from_utf8_lossy (utf8 s) = s"
  using decode_utf8_append [of s "[]"] by (simp add: from_utf8_lossy_def comp_def)

lemma utf8_append [simp]: "utf8 (s @ t) = utf8 s @ utf8 t"
  by (simp add: utf8_def)

lemma utf8_ascii: "list_all (\<lambda>c. c < 128) s \<Longrightarrow> utf8 s = s"
  by (induction s) (auto simp: utf8_def utf8_char_def)

lemma length_utf8: "length (utf8 s) \<le> 4 * length s"
proof (induction s)
  case (Cons c s)
  have "length (utf8_char c) \<le> 4" by (simp add: utf8_char_def)
  with Cons show ?case by (simp add: utf8_def)
qed (simp add: utf8_def)

text \<open>Only the character itself encodes to an ASCII byte.\<close>

lemma ascii_in_utf8: "b < 128 \<Longrightarrow> b \<in> set (utf8 s) \<longleftrightarrow> b \<in> set s"
  by (induction s) (auto simp: utf8_def utf8_char_def split: if_splits)

end
