(* ===== verification/Stub_Server.thy ===== *)
theory Stub_Server
  imports Utf8 Transport
begin

text \<open>
  The loopback server of the tests in \<^verbatim>\<open>client.rs\<close>, down to the bytes of one connection: what
  \<^verbatim>\<open>StubServer::serve\<close> reads, records and writes. A stream is the bytes up to its end.
\<close>

record RecordedRequest =
  rr_headers :: "rstring list"
  rr_body :: rstring

subsection \<open>What it uses of the standard library\<close>

definition trim_end :: "rstring \<Rightarrow> rstring" where
  "trim_end s = rev (dropWhile is_whitespace (rev s))"

text \<open>
  \<^verbatim>\<open>str::to_lowercase\<close>, exact as far as a comparison with ASCII text can tell: the only other
  code point with an ASCII letter as its lower case is the Kelvin sign.
\<close>

definition to_lowercase :: "rstring \<Rightarrow> rstring" where
  "to_lowercase s = map (\<lambda>c. if 65 \<le> c \<and> c \<le> 90 then c + 32 else if c = 8490 then 107 else c) s"

definition starts_with :: "rstring \<Rightarrow> rstring \<Rightarrow> bool" where
  "starts_with s prefix \<longleftrightarrow> take (length prefix) s = prefix"

definition split_once :: "rchar \<Rightarrow> rstring \<Rightarrow> (rstring \<times> rstring) option" where
  "split_once c s =
     (case dropWhile (\<lambda>x. x \<noteq> c) s of [] \<Rightarrow> None | _ # after \<Rightarrow> Some (takeWhile (\<lambda>x. x \<noteq> c) s, after))"

definition parse_usize :: "rstring \<Rightarrow> nat option" where
  "parse_usize s =
     (let digits = (case s of c # rest \<Rightarrow> if c = 43 then rest else s | [] \<Rightarrow> [])
      in if digits \<noteq> [] \<and> list_all is_digit digits \<and> digits_value 0 digits < 2 ^ 64
         then Some (digits_value 0 digits) else None)"

text \<open>\<^verbatim>\<open>BufRead::read_line\<close>: the bytes up to and including a line feed, and the rest.\<close>

definition read_line :: "byte list \<Rightarrow> byte list \<times> byte list" where
  "read_line bs =
     (case dropWhile (\<lambda>b. b \<noteq> 10) bs of
        [] \<Rightarrow> (bs, [])
      | _ # rest \<Rightarrow> (takeWhile (\<lambda>b. b \<noteq> 10) bs @ [10], rest))"

subsection \<open>\<^verbatim>\<open>StubServer::serve\<close>\<close>

datatype serve_error = InvalidData | UnexpectedEof | CapacityOverflow | WriteFailed

lemma read_line_shorter: "read_line bs = (raw, rest) \<Longrightarrow> raw \<noteq> [] \<Longrightarrow> length rest < length bs"
proof -
  have "length (dropWhile (\<lambda>b. b \<noteq> 10) bs) \<le> length bs" by (rule length_dropWhile_le)
  then show "read_line bs = (raw, rest) \<Longrightarrow> raw \<noteq> [] \<Longrightarrow> length rest < length bs"
    by (auto simp: read_line_def split: list.splits)
qed

function read_head :: "rstring list \<Rightarrow> byte list \<Rightarrow> (rstring list \<times> byte list, serve_error) result" where
  "read_head headers bs =
     (case read_line bs of (raw, rest) \<Rightarrow>
      (case from_utf8 raw of
         None \<Rightarrow> Inl InvalidData
       | Some line \<Rightarrow>
           if raw = [] \<or> is_blank line then Inr (headers, rest)
           else read_head (headers @ [trim_end line]) rest))"
  by pat_completeness auto
termination
  by (relation "measure (length \<circ> snd)") (auto dest: read_line_shorter [OF sym])

declare read_head.simps [simp del]

definition content_length :: "rstring list \<Rightarrow> nat" where
  "content_length headers =
     unwrap_or
       (Option.bind (List.find (\<lambda>h. starts_with (to_lowercase h) (lit ''content-length:'')) headers) (\<lambda>h.
        Option.bind (split_once 58 h) (\<lambda>(_, value). parse_usize (trim value)))) 0"

abbreviation crlf :: rstring where
  "crlf \<equiv> [13, 10]"

definition stub_response :: "u16 \<Rightarrow> rstring \<Rightarrow> rstring" where
  "stub_response status body =
     lit ''HTTP/1.1 '' @ show_nat (unat status) @ lit '' X'' @ crlf @
     lit ''Content-Type: application/json'' @ crlf @
     lit ''Content-Length: '' @ show_nat (length (utf8 body)) @ crlf @
     lit ''Connection: close'' @ crlf @ crlf @ body"

text \<open>
  One connection: what was recorded, and what was written. Whether the socket takes the
  response is an argument. A content length past \<^verbatim>\<open>isize::MAX\<close> panics in \<^verbatim>\<open>vec!\<close>.
\<close>

definition serve :: "byte list \<Rightarrow> bool \<Rightarrow> u16 \<Rightarrow> rstring \<Rightarrow> (RecordedRequest, serve_error) result \<times> byte list" where
  "serve stream writable status body =
     (case read_head [] stream of
        Inl e \<Rightarrow> (Inl e, [])
      | Inr (headers, rest) \<Rightarrow>
          let len = content_length headers in
          if 2 ^ 63 \<le> len then (Inl CapacityOverflow, [])
          else if length rest < len then (Inl UnexpectedEof, [])
          else if \<not> writable then (Inl WriteFailed, [])
          else (Inr \<lparr>rr_headers = headers, rr_body = from_utf8_lossy (take len rest)\<rparr>,
                utf8 (stub_response status body)))"

definition recorded_header :: "RecordedRequest \<Rightarrow> rstring \<Rightarrow> rstring option" where
  "recorded_header r name =
     (let prefix = to_lowercase name @ lit '':''
      in Option.bind (List.find (\<lambda>h. starts_with (to_lowercase h) prefix) (rr_headers r)) (\<lambda>h.
         map_option (\<lambda>(_, value). trim value) (split_once 58 h)))"

subsection \<open>Reading a head back\<close>

text \<open>A line of a head: not blank, without a line feed, without white space at its end.\<close>

definition head_line :: "rstring \<Rightarrow> bool" where
  "head_line l \<longleftrightarrow> \<not> is_blank l \<and> trim_end l = l \<and> 10 \<notin> set l \<and> list_all scalar l"

definition head_bytes :: "rstring list \<Rightarrow> byte list" where
  "head_bytes lines = utf8 (concat (map (\<lambda>l. l @ crlf) lines) @ crlf)"

lemma read_line_utf8: "10 \<notin> set s \<Longrightarrow> read_line (utf8 (s @ crlf) @ bs) = (utf8 (s @ crlf), bs)"
proof -
  assume "10 \<notin> set s"
  then have no: "10 \<notin> set (utf8 s)" by (simp add: ascii_in_utf8)
  have nl: "utf8 crlf = [13, 10]" by (simp add: utf8_ascii)
  have "takeWhile (\<lambda>b. b \<noteq> 10) (utf8 s @ 13 # 10 # bs) = utf8 s @ [13]"
    "dropWhile (\<lambda>b. b \<noteq> 10) (utf8 s @ 13 # 10 # bs) = 10 # bs"
    using no by (simp_all add: takeWhile_append dropWhile_append)
  then show ?thesis by (simp add: read_line_def nl)
qed

lemma trim_end_crlf: "trim_end (l @ crlf) = trim_end l"
  by (simp add: trim_end_def is_whitespace_def)

lemma read_head_lines:
  "list_all head_line lines \<Longrightarrow> read_head headers (head_bytes lines @ bs) = Inr (headers @ lines, bs)"
proof (induction lines arbitrary: headers)
  case Nil
  have "from_utf8 (utf8 ([] @ crlf)) = Some crlf" using from_utf8_utf8 [of crlf] by (simp add: scalar_def)
  with read_line_utf8 [of "[]" bs] show ?case
    by (subst read_head.simps) (simp add: head_bytes_def is_whitespace_def)
next
  case (Cons l lines)
  then have l: "head_line l" by simp
  have bytes: "head_bytes (l # lines) @ bs = utf8 (l @ crlf) @ head_bytes lines @ bs"
    by (simp add: head_bytes_def utf8_def)
  have "from_utf8 (utf8 (l @ crlf)) = Some (l @ crlf)"
    using l by (intro from_utf8_utf8) (simp add: head_line_def scalar_def)
  moreover have "\<not> is_blank (l @ crlf)" "trim_end (l @ crlf) = l"
    using l by (auto simp: head_line_def trim_end_crlf is_blank_iff simp del: utf8_append)
  moreover have "utf8 (l @ crlf) \<noteq> []" by (simp add: utf8_ascii)
  moreover have "read_line (utf8 (l @ crlf) @ head_bytes lines @ bs) = (utf8 (l @ crlf), head_bytes lines @ bs)"
    using l by (intro read_line_utf8) (simp add: head_line_def)
  ultimately show ?case
    using Cons by (subst read_head.simps, subst bytes) (simp del: utf8_append)
qed

subsection \<open>The records\<close>

text \<open>A header as HTTP/1.1 writes it, and the bytes of a request whose body has the length the head announces.\<close>

definition header_text :: "rstring \<times> rstring \<Rightarrow> rstring" where
  "header_text h = fst h @ lit '': '' @ snd h"

definition http_bytes :: "rstring \<Rightarrow> (rstring \<times> rstring) list \<Rightarrow> rstring \<Rightarrow> byte list" where
  "http_bytes request_line headers body = head_bytes (request_line # map header_text headers) @ utf8 body"

lemma split_once_colon: "58 \<notin> set n \<Longrightarrow> split_once 58 (header_text (n, v)) = Some (n, 32 # v)"
  by (simp add: split_once_def header_text_def literals dropWhile_append takeWhile_append)

lemma trim_leading_space: "trim (32 # v) = trim v"
  by (simp add: trim_def is_whitespace_def)

lemma colon_lowercase [simp]: "58 \<in> set (to_lowercase s) \<longleftrightarrow> 58 \<in> set s"
  by (auto simp: to_lowercase_def image_iff)

lemma starts_with_iff: "starts_with s p \<longleftrightarrow> (\<exists>t. s = p @ t)"
  unfolding starts_with_def by (metis append_take_drop_id append_eq_conv_conj)

lemma first_occurrence_unique:
  "c \<notin> set a \<Longrightarrow> c \<notin> set b \<Longrightarrow> a @ c # x = b @ c # y \<longleftrightarrow> a = b \<and> x = y"
  by (induction a arbitrary: b; case_tac b) auto

lemma starts_with_name:
  assumes "58 \<notin> set n" and "58 \<notin> set name"
  shows "starts_with (to_lowercase (header_text (n, v))) (to_lowercase name @ lit '':'') \<longleftrightarrow>
    to_lowercase n = to_lowercase name"
proof -
  have "to_lowercase (header_text (n, v)) = to_lowercase n @ 58 # 32 # to_lowercase v"
    by (simp add: header_text_def to_lowercase_def literals)
  moreover have "58 \<notin> set (to_lowercase n)" "58 \<notin> set (to_lowercase name)" using assms by simp_all
  ultimately show ?thesis by (simp add: starts_with_iff literals first_occurrence_unique)
qed

text \<open>The header of a request by name, ignoring the case of the name.\<close>

definition header_of :: "(rstring \<times> rstring) list \<Rightarrow> rstring \<Rightarrow> rstring option" where
  "header_of headers name =
     map_option (\<lambda>h. trim (snd h)) (List.find (\<lambda>h. to_lowercase (fst h) = to_lowercase name) headers)"

lemma recorded_header_of:
  assumes "list_all (\<lambda>h. 58 \<notin> set (fst h)) headers" and "58 \<notin> set name"
    and "\<not> starts_with (to_lowercase request_line) (to_lowercase name @ lit '':'')"
  shows "recorded_header \<lparr>rr_headers = request_line # map header_text headers, rr_body = body\<rparr> name =
    header_of headers name"
proof -
  let ?found = "\<lambda>h. starts_with (to_lowercase h) (to_lowercase name @ lit '':'')"
  have "Option.bind (List.find ?found (map header_text headers)) (\<lambda>h. map_option (\<lambda>(_, value). trim value) (split_once 58 h)) =
      header_of headers name"
    using assms(1)
  proof (induction headers)
    case (Cons h headers)
    obtain n v where "h = (n, v)" by fastforce
    with Cons assms(2) show ?case
      by (auto simp: header_of_def starts_with_name split_once_colon trim_leading_space)
  qed (simp add: header_of_def)
  then show ?thesis using assms(3) by (simp add: recorded_header_def Let_def)
qed

text \<open>The server's own answer.\<close>

definition stub_head :: "u16 \<Rightarrow> rstring \<Rightarrow> rstring list" where
  "stub_head status body =
     [lit ''HTTP/1.1 '' @ show_nat (unat status) @ lit '' X'', lit ''Content-Type: application/json'',
      lit ''Content-Length: '' @ show_nat (length (utf8 body)), lit ''Connection: close'']"

lemma stub_response_bytes: "utf8 (stub_response status body) = head_bytes (stub_head status body) @ utf8 body"
  by (simp add: stub_response_def head_bytes_def stub_head_def utf8_def)

lemma show_nat_char: "c \<in> set (show_nat n) \<Longrightarrow> 48 \<le> c \<and> c \<le> 57"
  using show_nat_digits by (simp add: is_digit_def)

lemma digits_not_whitespace: "c \<in> set (show_nat n) \<Longrightarrow> \<not> is_whitespace c"
  by (drule show_nat_char) (auto simp: is_whitespace_def)

lemma trim_end_digits: "trim_end (s @ show_nat n) = s @ show_nat n"
proof -
  obtain c cs where "rev (show_nat n) = c # cs" by (cases "rev (show_nat n)") auto
  moreover from this have "\<not> is_whitespace c" by (intro digits_not_whitespace [of _ n]) (metis list.set_intros(1) set_rev)
  ultimately have "dropWhile is_whitespace (rev (show_nat n) @ rev s) = rev (show_nat n) @ rev s" by simp
  then show ?thesis by (simp add: trim_end_def)
qed

lemma digits_proper: "10 \<notin> set (show_nat n)" "list_all scalar (show_nat n)"
  using show_nat_char [of 10 n] by (auto simp: list_all_iff scalar_def dest: show_nat_char)

lemma trim_end_lit: "\<not> is_whitespace (of_char c) \<Longrightarrow> trim_end (s @ lit (cs @ [c])) = s @ lit (cs @ [c])"
  by (simp add: trim_end_def lit_def)

lemma stub_head_lines: "list_all head_line (stub_head status body)"
  unfolding stub_head_def
  using trim_end_lit [of "CHR ''X''" "lit ''HTTP/1.1 '' @ show_nat (unat status)" "'' ''"]
    trim_end_lit [of "CHR ''n''" "[]" "''Content-Type: application/jso''"] trim_end_lit [of "CHR ''e''" "[]" "''Connection: clos''"]
  by (simp add: head_line_def trim_end_digits digits_proper is_whitespace_def)
    (simp add: scalar_def literals is_whitespace_def)

lemma trim_digits: "trim (32 # show_nat n) = show_nat n"
proof -
  have "dropWhile is_whitespace (show_nat n) = show_nat n"
    by (simp add: dropWhile_eq_self_iff digits_not_whitespace)
  then show ?thesis using trim_end_digits [of "[]" n] unfolding trim_leading_space by (simp add: trim_def trim_end_def)
qed

lemma parse_show_nat: "parse_usize (show_nat n) = (if n < 2 ^ 64 then Some n else None)"
proof -
  have "list_all is_digit (show_nat n)" by (simp add: list_all_iff show_nat_digits)
  moreover have "hd (show_nat n) \<noteq> 43" using show_nat_char [of "hd (show_nat n)" n] by auto
  then have "(case show_nat n of c # rest \<Rightarrow> if c = 43 then rest else show_nat n | [] \<Rightarrow> []) = show_nat n"
    by (cases "show_nat n") auto
  ultimately show ?thesis by (simp add: parse_usize_def)
qed

text \<open>The content length is what the header of that name says, in whatever case it is written.\<close>

lemma content_length_recorded:
  assumes "recorded_header r (lit ''content-length'') = Some value"
  shows "content_length (rr_headers r) = unwrap_or (parse_usize value) 0"
proof -
  have name: "to_lowercase (lit ''content-length'') @ lit '':'' = lit ''content-length:''"
    by (simp add: to_lowercase_def literals)
  show ?thesis
    using assms
    by (auto simp: recorded_header_def content_length_def name Let_def split: Option.bind_splits)
qed

lemma content_length_header:
  assumes "list_all (\<lambda>h. 58 \<notin> set (fst h)) headers"
    and "\<not> starts_with (to_lowercase request_line) (lit ''content-length:'')"
    and "header_of headers (lit ''content-length'') = Some (show_nat n)" and "n < 2 ^ 64"
  shows "content_length (request_line # map header_text headers) = n"
proof -
  have name: "to_lowercase (lit ''content-length'') @ lit '':'' = lit ''content-length:''"
    by (simp add: to_lowercase_def literals)
  let ?r = "\<lparr>rr_headers = request_line # map header_text headers, rr_body = []\<rparr>"
  have "recorded_header ?r (lit ''content-length'') = Some (show_nat n)"
    using recorded_header_of [OF assms(1), of "lit ''content-length''" request_line] assms(2,3)
    by (simp add: name) (simp add: literals)
  from content_length_recorded [OF this] assms(4) show ?thesis by (simp add: parse_show_nat)
qed

text \<open>The server's answer is a response as HTTP/1.1 writes it.\<close>

definition stub_status_line :: "u16 \<Rightarrow> rstring" where
  "stub_status_line status = lit ''HTTP/1.1 '' @ show_nat (unat status) @ lit '' X''"

definition stub_headers :: "rstring \<Rightarrow> (rstring \<times> rstring) list" where
  "stub_headers body =
     [(lit ''Content-Type'', lit ''application/json''), (lit ''Content-Length'', show_nat (length (utf8 body))),
      (lit ''Connection'', lit ''close'')]"

lemma stub_response_http: "utf8 (stub_response status body) = http_bytes (stub_status_line status) (stub_headers body) body"
proof -
  have "stub_head status body = stub_status_line status # map header_text (stub_headers body)"
    by (simp add: stub_head_def stub_status_line_def stub_headers_def header_text_def literals)
  then show ?thesis by (simp add: stub_response_bytes http_bytes_def)
qed

text \<open>
  A well-formed HTTP/1.1 message: proper lines, no colon in a header's name, a body of scalar
  values, and a header \<^verbatim>\<open>content-length\<close>, in any case, that tells the number of its bytes.
\<close>

definition http_message :: "rstring \<Rightarrow> (rstring \<times> rstring) list \<Rightarrow> rstring \<Rightarrow> bool" where
  "http_message start_line headers body \<longleftrightarrow>
     list_all head_line (start_line # map header_text headers) \<and> list_all (\<lambda>h. 58 \<notin> set (fst h)) headers \<and>
     list_all scalar body \<and> header_of headers (lit ''content-length'') = Some (show_nat (length (utf8 body)))"

lemma stub_message: "list_all scalar body \<Longrightarrow> http_message (stub_status_line status) (stub_headers body) body"
  using stub_head_lines [of status body] trim_digits [of "length (utf8 body)"]
  by (simp add: http_message_def stub_head_def stub_status_line_def stub_headers_def header_text_def header_of_def
      to_lowercase_def literals trim_leading_space)

lemma serve_records:
  assumes "http_message request_line headers body" and "length (utf8 body) < 2 ^ 63"
    and "\<not> starts_with (to_lowercase request_line) (lit ''content-length:'')"
  shows "serve (http_bytes request_line headers body @ rest) True status reply =
    (Inr \<lparr>rr_headers = request_line # map header_text headers, rr_body = body\<rparr>, utf8 (stub_response status reply))"
proof -
  let ?lines = "request_line # map header_text headers"
  note m = assms(1) [unfolded http_message_def]
  have "read_head [] (http_bytes request_line headers body @ rest) = Inr (?lines, utf8 body @ rest)"
    using read_head_lines [of ?lines "[]" "utf8 body @ rest"] m by (simp add: http_bytes_def)
  moreover have "content_length ?lines = length (utf8 body)"
    using m assms(2,3) by (intro content_length_header) simp_all
  ultimately show ?thesis using m assms(2) by (simp add: serve_def from_utf8_lossy_utf8)
qed

text \<open>
  C38. The test server records what the client sends: given the bytes of a well-formed HTTP/1.1
  request whose header \<^verbatim>\<open>content-length\<close>, written in any case, tells the number of bytes of its
  body, \<^verbatim>\<open>serve\<close> records exactly the lines of that head and that body, whatever characters they
  have, and leaves what follows unread; the lookup of a header by name, in any case, finds its
  value. What it writes is a well-formed HTTP/1.1 response with the given status and body.
\<close>

theorem stub_server_records_the_request:
  assumes "http_message request_line headers body" and "length (utf8 body) < 2 ^ 63"
    and "\<not> starts_with (to_lowercase request_line) (lit ''content-length:'')"
    and "58 \<notin> set name" and "\<not> starts_with (to_lowercase request_line) (to_lowercase name @ lit '':'')"
    and "list_all scalar reply"
  shows "\<exists>r. serve (http_bytes request_line headers body @ rest) True status reply =
      (Inr r, http_bytes (stub_status_line status) (stub_headers reply) reply) \<and>
    rr_headers r = request_line # map header_text headers \<and> rr_body r = body \<and>
    recorded_header r name = header_of headers name \<and>
    http_message (stub_status_line status) (stub_headers reply) reply"
proof -
  have "recorded_header \<lparr>rr_headers = request_line # map header_text headers, rr_body = body\<rparr> name =
      header_of headers name"
    using assms(1,4,5) by (intro recorded_header_of) (simp_all add: http_message_def)
  then show ?thesis
    using serve_records [OF assms(1-3)] stub_message [OF assms(6)] by (auto simp: stub_response_http)
qed

definition sample_headers :: "(rstring \<times> rstring) list" where
  "sample_headers =
     [(lit ''Content-Type'', lit ''application/json''), (lit ''X-API-KEY'', lit ''api-key''),
      (lit ''content-length'', lit ''3'')]"

text \<open>A body of two characters, the second of which takes two bytes.\<close>

theorem stub_server_records_the_request_witness:
  "\<exists>r. fst (serve (http_bytes (lit ''POST /incident HTTP/1.1'') sample_headers [123, 233]) True 200 (lit ''{}'')) = Inr r \<and>
     rr_body r = [123, 233] \<and> recorded_header r (lit ''x-api-key'') = Some (lit ''api-key'')"
proof -
  let ?line = "lit ''POST /incident HTTP/1.1''"
  have bytes: "length (utf8 [123, 233]) = 3" by (simp add: utf8_def utf8_char_def)
  have three: "show_nat 3 = lit ''3''" by (simp add: show_nat.simps literals)
  have "list_all head_line (?line # map header_text sample_headers)"
    by (simp add: sample_headers_def head_line_def header_text_def literals scalar_def is_whitespace_def trim_end_def)
  moreover have "header_of sample_headers (lit ''content-length'') = Some (show_nat (length (utf8 [123, 233])))"
    unfolding bytes three
    by (simp add: header_of_def sample_headers_def to_lowercase_def literals trim_def is_whitespace_def)
  moreover have "list_all (\<lambda>h. 58 \<notin> set (fst h)) sample_headers" by (simp add: sample_headers_def literals)
  ultimately have message: "http_message ?line sample_headers [123, 233]" by (simp add: http_message_def scalar_def)
  have "header_of sample_headers (lit ''x-api-key'') = Some (lit ''api-key'')"
    by (simp add: header_of_def sample_headers_def to_lowercase_def literals trim_def is_whitespace_def)
  moreover have "\<not> starts_with (to_lowercase ?line) (lit ''content-length:'')" "58 \<notin> set (lit ''x-api-key'')"
    "\<not> starts_with (to_lowercase ?line) (to_lowercase (lit ''x-api-key'') @ lit '':'')" "list_all scalar (lit ''{}'')"
    by (simp_all add: starts_with_def to_lowercase_def literals scalar_def)
  moreover have "length (utf8 [123, 233]) < 2 ^ 63" unfolding bytes by simp
  ultimately show ?thesis
    using stub_server_records_the_request [OF message, of "lit ''x-api-key''" "lit ''{}''" "[]" 200] by auto
qed

end
