(* ===== verification/Stub_Network.thy ===== *)
theory Stub_Network
  imports Stub_Server Client_Properties
begin

text \<open>
  The test server of \<^verbatim>\<open>client.rs\<close> as the network of a client: the loop of its thread, one
  connection per turn, and its channel of recorded requests. What \<^verbatim>\<open>ureq\<close> does between a request
  and the bytes of a connection is the parameter \<open>H\<close>; the locale \<open>http_agent\<close> is what the tests
  rely on of it, that it speaks HTTP/1.1.
\<close>

subsection \<open>The server\<close>

record StubServer =
  ss_responses :: "(u16 \<times> rstring) list"
  served :: nat
  requests :: "RecordedRequest list" \<comment> \<open>recorded and not yet received, oldest first\<close>
  serving :: bool \<comment> \<open>the thread is still in its loop\<close>

text \<open>\<^verbatim>\<open>StubServer::start\<close>; the port, and so the URL, is the operating system's choice.\<close>

definition stub_start :: "(u16 \<times> rstring) list \<Rightarrow> StubServer" where
  "stub_start responses = \<lparr>ss_responses = responses, served = 0, requests = [], serving = True\<rparr>"

text \<open>
  One turn of the loop: the bytes of the connection, what is written to it. Without responses
  the index \<^verbatim>\<open>responses.len() - 1\<close> panics; an error of \<^verbatim>\<open>serve\<close> ends the thread.
\<close>

definition stub_turn :: "byte list \<Rightarrow> StubServer \<Rightarrow> byte list \<times> StubServer" where
  "stub_turn stream S =
     (if ss_responses S = [] then ([], S\<lparr>serving := False\<rparr>)
      else case ss_responses S ! min (served S) (length (ss_responses S) - 1) of (status, body) \<Rightarrow>
        (case serve stream True status body of
           (Inr request, out) \<Rightarrow> (out, S\<lparr>served := served S + 1, requests := requests S @ [request]\<rparr>)
         | (Inl _, out) \<Rightarrow> (out, S\<lparr>serving := False\<rparr>)))"

text \<open>\<^verbatim>\<open>next_request\<close> once the client is done; \<open>None\<close> is its panic after ten seconds.\<close>

definition next_request :: "StubServer \<Rightarrow> (RecordedRequest \<times> StubServer) option" where
  "next_request S = (case requests S of [] \<Rightarrow> None | r # rs \<Rightarrow> Some (r, S\<lparr>requests := rs\<rparr>))"

definition assert_no_further_request :: "StubServer \<Rightarrow> bool" where
  "assert_no_further_request S \<longleftrightarrow> requests S = []"

subsection \<open>The agent\<close>

text \<open>
  The bytes the agent sends for a request, what it makes of the bytes it gets back, and its error
  when nobody accepts the connection.
\<close>

record 'e Http =
  frame :: "HttpRequest \<Rightarrow> byte list"
  unframe :: "byte list \<Rightarrow> ('e HttpResponse, 'e) result"
  unconnected :: 'e

definition stub_exchange :: "'e Http \<Rightarrow> (StubServer, 'e) ureq" where
  "stub_exchange H config q S =
     (if serving S then (case stub_turn (frame H q) S of (out, S') \<Rightarrow> (unframe H out, S'))
      else (Inl (unconnected H), S))"

text \<open>A request whose headers are proper lines, none of them the length, and whose body is text.\<close>

definition sendable :: "HttpRequest \<Rightarrow> bool" where
  "sendable q \<longleftrightarrow>
     list_all (\<lambda>h. head_line (header_text h) \<and> 58 \<notin> set (fst h) \<and> 32 \<notin> set (fst h) \<and>
       to_lowercase (fst h) \<noteq> lit ''content-length'') (hq_headers q) \<and>
     distinct (map (\<lambda>h. to_lowercase (fst h)) (hq_headers q)) \<and>
     list_all scalar (hq_body q) \<and> length (utf8 (hq_body q)) < 2 ^ 63"

definition status_line :: "u16 \<Rightarrow> rstring \<Rightarrow> rstring" where
  "status_line status reason = lit ''HTTP/1.1 '' @ show_nat (unat status) @ lit '' '' @ reason"

locale http_agent =
  fixes H :: "'e Http"
  assumes frame_http: "sendable q \<Longrightarrow> \<exists>target headers.
      frame H q = http_bytes (lit ''POST '' @ target) headers (hq_body q) \<and>
      http_message (lit ''POST '' @ target) headers (hq_body q) \<and>
      (\<forall>h\<in>set (hq_headers q). header_of headers (fst h) = Some (trim (snd h)))"
    and unframe_http: "http_message (status_line status reason) headers body \<Longrightarrow> 200 \<le> unat status \<Longrightarrow>
      unat status < 600 \<Longrightarrow> length (utf8 body) < 2 ^ 63 \<Longrightarrow>
      \<exists>response. unframe H (http_bytes (status_line status reason) headers body) = Inr response \<and>
        hr_status response = status \<and>
        (\<forall>limit. length (utf8 body) \<le> limit \<longrightarrow> hr_read_to_string response limit = Inr body)"

text \<open>What it means for the server to have recorded a request.\<close>

definition records :: "HttpRequest \<Rightarrow> RecordedRequest \<Rightarrow> bool" where
  "records q r \<longleftrightarrow> rr_body r = hq_body q \<and>
     (\<forall>h\<in>set (hq_headers q). recorded_header r (fst h) = Some (trim (snd h)))"

lemma post_line_no_header:
  assumes "32 \<notin> set name"
  shows "\<not> starts_with (to_lowercase (lit ''POST '' @ target)) (to_lowercase name @ lit '':'')"
proof
  have low: "to_lowercase (lit ''POST '' @ target) = [112, 111, 115, 116] @ 32 # to_lowercase target"
    by (simp add: to_lowercase_def literals)
  have no: "32 \<notin> set (to_lowercase name)" using assms by (auto simp: to_lowercase_def split: if_splits)
  assume "starts_with (to_lowercase (lit ''POST '' @ target)) (to_lowercase name @ lit '':'')"
  then obtain t where "[112, 111, 115, 116] @ 32 # to_lowercase target = to_lowercase name @ 58 # t"
    unfolding low starts_with_iff by (auto simp: literals)
  then obtain ys where "112 # 111 # 115 # 116 # 32 # ys = to_lowercase name"
    by (auto simp: Cons_eq_append_conv append_eq_Cons_conv)
  from this [symmetric] no show False by simp
qed

lemma stub_status_line_eq: "stub_status_line status = status_line status (lit ''X'')"
  by (simp add: stub_status_line_def status_line_def literals)

text \<open>The answer a turn gives, and whether it is one the agent takes.\<close>

definition current :: "StubServer \<Rightarrow> u16 \<times> rstring" where
  "current S = ss_responses S ! min (served S) (length (ss_responses S) - 1)"

definition ready :: "StubServer \<Rightarrow> bool" where
  "ready S \<longleftrightarrow> serving S \<and> ss_responses S \<noteq> [] \<and>
     list_all (\<lambda>(status, body). 200 \<le> unat status \<and> unat status < 600 \<and> list_all scalar body \<and>
       length (utf8 body) < 2 ^ 63) (ss_responses S)"

definition after_turn :: "RecordedRequest \<Rightarrow> StubServer \<Rightarrow> StubServer" where
  "after_turn r S = S\<lparr>served := served S + 1, requests := requests S @ [r]\<rparr>"

lemma ready_after_turn [simp]: "ready (after_turn r S) = ready S"
  by (simp add: ready_def after_turn_def)

text \<open>Between two worlds the client sent some requests, all equal, and the server recorded each.\<close>

definition recorded_between :: "HttpRequest \<Rightarrow> StubServer World \<Rightarrow> StubServer World \<Rightarrow> bool" where
  "recorded_between q W W' \<longleftrightarrow>
     (\<exists>new. requests (net W') = requests (net W) @ new \<and> list_all (records q) new \<and>
        map snd (sent W') = map snd (sent W) @ replicate (length new) q \<and> ready (net W'))"

lemma recorded_between_trans:
  assumes "recorded_between q W1 W2" and "recorded_between q W2 W3"
  shows "recorded_between q W1 W3"
proof -
  obtain xs ys where "requests (net W2) = requests (net W1) @ xs" "list_all (records q) xs"
    "map snd (sent W2) = map snd (sent W1) @ replicate (length xs) q"
    "requests (net W3) = requests (net W2) @ ys" "list_all (records q) ys"
    "map snd (sent W3) = map snd (sent W2) @ replicate (length ys) q" "ready (net W3)"
    using assms unfolding recorded_between_def by blast
  then show ?thesis unfolding recorded_between_def by (intro exI [of _ "xs @ ys"]) (simp add: replicate_add)
qed

lemma recorded_between_same: "net W2 = net W1 \<Longrightarrow> sent W2 = sent W1 \<Longrightarrow> ready (net W1) \<Longrightarrow> recorded_between q W1 W2"
  unfolding recorded_between_def by (rule exI [of _ "[]"]) simp

lemma recorded_between_ready: "recorded_between q W W' \<Longrightarrow> ready (net W')"
  by (auto simp: recorded_between_def)

text \<open>What the client makes of an answer it can read.\<close>

definition answered :: "('v, 'e) serde_json \<Rightarrow> u16 \<Rightarrow> rstring \<Rightarrow> (IncidentResponse, 'e IncidentError) result" where
  "answered J status body =
     (if 200 \<le> uint status \<and> uint status < 300 then parse_response J (uint status) body
      else Inl (status_failure J (uint status) body))"

context http_agent
begin

lemma turn_records:
  assumes "sendable q" and "ready S" and "current S = (status, body)"
  shows "\<exists>r. records q r \<and> stub_turn (frame H q) S = (utf8 (stub_response status body), after_turn r S)"
proof -
  obtain target headers where q: "frame H q = http_bytes (lit ''POST '' @ target) headers (hq_body q)"
    "http_message (lit ''POST '' @ target) headers (hq_body q)"
    "\<forall>h\<in>set (hq_headers q). header_of headers (fst h) = Some (trim (snd h))"
    using frame_http [OF assms(1)] by blast
  let ?r = "\<lparr>rr_headers = (lit ''POST '' @ target) # map header_text headers, rr_body = hq_body q\<rparr>"
  have "32 \<notin> set (lit ''content-length'')" by (simp add: literals)
  from post_line_no_header [OF this] have line: "\<not> starts_with (to_lowercase (lit ''POST '' @ target)) (lit ''content-length:'')"
    by (simp add: to_lowercase_def literals)
  have "serve (frame H q) True status body = (Inr ?r, utf8 (stub_response status body))"
    using serve_records [OF q(2) _ line, of "[]"] assms(1) q(1) by (simp add: sendable_def)
  then have "stub_turn (frame H q) S = (utf8 (stub_response status body), after_turn ?r S)"
    using assms(2,3) by (simp add: stub_turn_def ready_def current_def after_turn_def)
  moreover have "recorded_header ?r (fst h) = Some (trim (snd h))" if "h \<in> set (hq_headers q)" for h
  proof -
    have "58 \<notin> set (fst h)" "32 \<notin> set (fst h)" using assms(1) that by (auto simp: sendable_def list_all_iff)
    with recorded_header_of [of headers "fst h"] post_line_no_header [of "fst h"] q(2,3) that show ?thesis
      by (simp add: http_message_def)
  qed
  ultimately show ?thesis by (intro exI [of _ ?r]) (simp add: records_def)
qed

text \<open>An exchange with the server: it records the request, and the agent gets the answer.\<close>

lemma exchange_records:
  assumes "sendable q" and "ready S" and "current S = (status, body)"
  shows "\<exists>r response. records q r \<and> stub_exchange H config q S = (Inr response, after_turn r S) \<and>
    hr_status response = status \<and> (\<forall>limit. length (utf8 body) \<le> limit \<longrightarrow> hr_read_to_string response limit = Inr body)"
proof -
  obtain r where r: "records q r" "stub_turn (frame H q) S = (utf8 (stub_response status body), after_turn r S)"
    using turn_records [OF assms] by blast
  have "min (served S) (length (ss_responses S) - 1) < length (ss_responses S)"
    using assms(2) by (auto simp: ready_def min_less_iff_disj)
  with assms(3) have "(status, body) \<in> set (ss_responses S)" unfolding current_def by (metis nth_mem)
  then have b: "list_all scalar body" "200 \<le> unat status" "unat status < 600" "length (utf8 body) < 2 ^ 63"
    using assms(2) by (auto simp: ready_def list_all_iff)
  from unframe_http [OF stub_message [OF b(1), of status, unfolded stub_status_line_eq] b(2-4)] r assms(2)
  show ?thesis by (auto simp: stub_exchange_def ready_def stub_response_http stub_status_line_eq)
qed

text \<open>One attempt of the client against the server.\<close>

lemma send_records:
  assumes "exchange N = stub_exchange H" and "sendable (http_request t payload)" and "ready (net W)"
  shows "\<exists>r. records (http_request t payload) r \<and> net (snd (send_in J N t payload W)) = after_turn r (net W)"
proof -
  obtain status body where "current (net W) = (status, body)" by fastforce
  from exchange_records [OF assms(2,3) this, of "agent t"] assms(1) show ?thesis
    by (auto simp: send_in_def send_def)
qed

text \<open>With an answer within the limit, the attempt has the result of that answer.\<close>

lemma attempt_answered:
  assumes "exchange N = stub_exchange H" and "sendable (http_request t payload)" and "ready (net W)"
    and "current (net W) = (status, body)" and "length (utf8 body) \<le> MAX_RESPONSE_BYTES"
  shows "\<exists>r. records (http_request t payload) r \<and> send_in J N t payload W =
    (answered J status body, W\<lparr>net := after_turn r (net W), clock := clock W + took N (after_turn r (net W)),
       sent := sent W @ [(clock W, http_request t payload)]\<rparr>)"
proof -
  obtain r response where "records (http_request t payload) r"
    "stub_exchange H (agent t) (http_request t payload) (net W) = (Inr response, after_turn r (net W))"
    "hr_status response = status" "hr_read_to_string response MAX_RESPONSE_BYTES = Inr body"
    using exchange_records [OF assms(2-4)] assms(5) by metis
  then show ?thesis using assms(1) by (auto simp: send_in_def send_def receive_readable answered_def)
qed

lemma attempt_recorded:
  assumes "exchange N = stub_exchange H" and "sendable (http_request t payload)" and "ready (net W)"
    and "send_in J N t payload W = (res, W')"
  shows "recorded_between (http_request t payload) W W'"
proof -
  obtain r where r: "records (http_request t payload) r" "net W' = after_turn r (net W)"
    using send_records [OF assms(1-3), of J] assms(4) by auto
  moreover have "sent W' = sent W @ [(clock W, http_request t payload)]"
    using send_in_keeps(1) [of J N t payload W] assms(4) by simp
  ultimately show ?thesis
    using assms(3) unfolding recorded_between_def by (intro exI [of _ "[r]"]) (simp, simp add: after_turn_def)
qed

lemma retry_recorded:
  assumes "exchange N = stub_exchange H" and "sendable (http_request t payload)"
  shows "ready (net W) \<Longrightarrow> retry_loop ds (wait_in i) (send_in J N t payload) k W = (res, W') \<Longrightarrow>
    recorded_between (http_request t payload) W W'"
proof (induction k W rule: retry_induct [where operation = "send_in J N t payload" and ds = ds and wt = "wait_in i"])
  case (Ok k W v W1)
  then show ?case using attempt_recorded [OF assms] by (simp add: retry_loop_Ok)
next
  case (Final k W f W1)
  then show ?case using attempt_recorded [OF assms] by (simp add: retry_loop_final)
next
  case (Interrupted k W f W1 W2)
  note first = attempt_recorded [OF assms Interrupted.prems(1) Interrupted.hyps(1)]
  have "recorded_between (http_request t payload) W1 W2"
    using wait_in_keeps(1,2) [of i "ds ! k" W1] Interrupted.hyps(4) recorded_between_ready [OF first]
    by (intro recorded_between_same) simp_all
  with recorded_between_trans [OF first] Interrupted show ?case by (simp add: retry_loop_interrupted)
next
  case (Again k W f W1 W2)
  note first = attempt_recorded [OF assms Again.prems(1) Again.hyps(1)]
  have wait: "recorded_between (http_request t payload) W1 W2"
    using wait_in_keeps(1,2) [of i "ds ! k" W1] Again.hyps(4) recorded_between_ready [OF first]
    by (intro recorded_between_same) simp_all
  have "recorded_between (http_request t payload) W2 W'"
    using Again.IH [OF recorded_between_ready [OF wait]] Again.prems(2) Again.hyps by (simp add: retry_loop_again)
  with recorded_between_trans [OF recorded_between_trans [OF first wait]] show ?case by simp
qed

end

subsection \<open>From the client to the record\<close>

text \<open>What the server finds in a recorded request of the client.\<close>

definition recorded_incident :: "Transport \<Rightarrow> IncidentRequest \<Rightarrow> rstring option \<Rightarrow> RecordedRequest \<Rightarrow> bool" where
  "recorded_incident t request key r \<longleftrightarrow>
     recorded_header r (lit ''X-API-KEY'') = Some (trim (api_key t)) \<and>
     recorded_header r (lit ''Content-Type'') = Some (lit ''application/json'') \<and>
     read_object (rr_body r) = Some (wire_members request key)"

lemma records_incident:
  assumes "json_quoting (quote J)" and "records (http_request t (serialize_request J request key)) r"
  shows "recorded_incident t request key r"
proof -
  have "trim (lit ''application/json'') = lit ''application/json''" by (simp add: trim_def literals is_whitespace_def)
  then show ?thesis
    using assms(2) payload_members [OF assms(1)] by (simp add: records_def recorded_incident_def http_request_def)
qed


subsection \<open>A concrete agent\<close>

text \<open>One that speaks just enough HTTP/1.1, for concrete runs.\<close>

definition plain_unframe :: "byte list \<Rightarrow> (unit HttpResponse, unit) result" where
  "plain_unframe bs =
     (case read_head [] bs of
        Inr (line # lines, rest) \<Rightarrow>
          (case parse_usize (takeWhile (\<lambda>c. c \<noteq> 32) (drop 9 line)) of
             Some n \<Rightarrow>
               let len = content_length (line # lines) in
               Inr \<lparr>hr_status = of_nat n,
                    hr_read_to_string = (\<lambda>limit. if len \<le> limit then Inr (from_utf8_lossy (take len rest)) else Inl ())\<rparr>
           | None \<Rightarrow> Inl ())
      | _ \<Rightarrow> Inl ())"

definition plain_http :: "unit Http" where
  "plain_http =
     \<lparr>frame = (\<lambda>q. http_bytes (lit ''POST /incident HTTP/1.1'')
        (hq_headers q @ [(lit ''content-length'', show_nat (length (utf8 (hq_body q))))]) (hq_body q)),
      unframe = plain_unframe, unconnected = ()\<rparr>"

lemma find_distinct:
  "distinct (map f xs) \<Longrightarrow> x \<in> set xs \<Longrightarrow> List.find (\<lambda>y. f y = f x) (xs @ ys) = Some x"
proof (induction xs)
  case (Cons y xs)
  then show ?case by (cases "x = y") (auto simp: image_iff)
qed simp

lemma find_last: "list_all (\<lambda>y. \<not> P y) xs \<Longrightarrow> P x \<Longrightarrow> List.find P (xs @ [x]) = Some x"
  by (induction xs) auto

lemma trim_number: "trim (show_nat n) = show_nat n"
  using trim_digits [of n] by (simp add: trim_leading_space)

lemma length_line: "head_line (header_text (lit ''content-length'', show_nat n))"
proof -
  have "trim_end (lit ''content-length: '' @ show_nat n) = lit ''content-length: '' @ show_nat n" by (rule trim_end_digits)
  then show ?thesis
    by (simp add: header_text_def head_line_def digits_proper literals is_whitespace_def scalar_def)
qed

interpretation plain: http_agent plain_http
proof
  fix q
  assume q: "sendable q"
  let ?headers = "hq_headers q @ [(lit ''content-length'', show_nat (length (utf8 (hq_body q))))]"
  have "head_line (lit ''POST '' @ lit ''/incident HTTP/1.1'')"
    by (simp add: head_line_def literals is_whitespace_def scalar_def trim_end_def)
  moreover have "header_of ?headers (lit ''content-length'') = Some (show_nat (length (utf8 (hq_body q))))"
    using q unfolding header_of_def
    by (subst find_last) (auto simp: sendable_def list_all_iff to_lowercase_def literals trim_number)
  ultimately have "http_message (lit ''POST '' @ lit ''/incident HTTP/1.1'') ?headers (hq_body q)"
    using q by (simp add: http_message_def sendable_def list_all_iff length_line) (simp add: literals)
  moreover have "header_of ?headers (fst h) = Some (trim (snd h))" if "h \<in> set (hq_headers q)" for h
    using find_distinct [of "\<lambda>h. to_lowercase (fst h)" "hq_headers q" h] q that by (simp add: header_of_def sendable_def)
  moreover have "frame plain_http q = http_bytes (lit ''POST '' @ lit ''/incident HTTP/1.1'') ?headers (hq_body q)"
    by (simp add: plain_http_def literals)
  ultimately show "\<exists>target headers. frame plain_http q = http_bytes (lit ''POST '' @ target) headers (hq_body q) \<and>
      http_message (lit ''POST '' @ target) headers (hq_body q) \<and>
      (\<forall>h\<in>set (hq_headers q). header_of headers (fst h) = Some (trim (snd h)))"
    by blast
next
  fix status :: u16 and reason headers body
  let ?line = "status_line status reason"
  assume m: "http_message ?line headers body" and len: "length (utf8 body) < 2 ^ 63"
  have "read_head [] (http_bytes ?line headers body) = Inr (?line # map header_text headers, utf8 body)"
    using read_head_lines [of "?line # map header_text headers" "[]" "utf8 body"] m
    by (simp add: http_bytes_def http_message_def)
  moreover have "\<not> starts_with (to_lowercase ?line) (lit ''content-length:'')"
    by (simp add: status_line_def starts_with_def to_lowercase_def literals)
  then have "content_length (?line # map header_text headers) = length (utf8 body)"
    using m len by (intro content_length_header) (simp_all add: http_message_def)
  moreover have "takeWhile (\<lambda>c. c \<noteq> 32) (drop 9 ?line) = show_nat (unat status)"
    using show_nat_char by (fastforce simp: status_line_def literals takeWhile_append)
  moreover have "parse_usize (show_nat (unat status)) = Some (unat status)"
  proof -
    have "unat status < 2 ^ 64" using unsigned_less [where w = status and ?'a = nat] by simp
    then show ?thesis by (simp add: parse_show_nat)
  qed
  moreover have "list_all scalar body" using m by (simp add: http_message_def)
  ultimately show "\<exists>response. unframe plain_http (http_bytes ?line headers body) = Inr response \<and>
      hr_status response = status \<and>
      (\<forall>limit. length (utf8 body) \<le> limit \<longrightarrow> hr_read_to_string response limit = Inr body)"
    by (simp add: plain_http_def plain_unframe_def from_utf8_lossy_utf8 Let_def)
qed

definition stub_net :: "'e Http \<Rightarrow> (StubServer, 'e) Net" where
  "stub_net H = \<lparr>exchange = stub_exchange H, took = (\<lambda>_. 1)\<rparr>"

text \<open>A process that has just started the server.\<close>

definition stub_world :: "StubServer \<Rightarrow> StubServer World" where
  "stub_world S = \<lparr>net = S, clock = 0, signal_at = None, wake_lag = 1, sent = []\<rparr>"

lemma sendable_request:
  assumes "list_all scalar payload" and "length payload < 2 ^ 60" and "head_line (header_text (lit ''X-API-KEY'', api_key t))"
  shows "sendable (http_request t payload)"
proof -
  have "head_line (header_text (lit ''Content-Type'', lit ''application/json''))"
    "head_line (header_text (lit ''Accept'', lit ''application/json''))"
    by (simp_all add: head_line_def header_text_def literals is_whitespace_def scalar_def trim_end_def)
  moreover have "length (utf8 payload) < 2 ^ 63" using length_utf8 [of payload] assms(2) by simp
  ultimately show ?thesis
    using assms(1,3) by (simp add: sendable_def http_request_def) (simp add: to_lowercase_def literals)
qed

lemma api_key_line: "head_line (header_text (lit ''X-API-KEY'', lit ''api-key''))"
  by (simp add: head_line_def header_text_def literals is_whitespace_def scalar_def trim_end_def)

lemma sample_sendable:
  "sendable (http_request sample_transport (serialize_request rfc_serde sample_request (Some (lit ''svc''))))"
proof (rule sendable_request)
  show "list_all scalar (serialize_request rfc_serde sample_request (Some (lit ''svc'')))"
    "length (serialize_request rfc_serde sample_request (Some (lit ''svc''))) < 2 ^ 60"
    by (simp_all add: payload_eval sample_defs accessors literals scalar_def)
  show "head_line (header_text (lit ''X-API-KEY'', api_key sample_transport))"
    by (simp add: sample_transport_def transport_new_def with_endpoint_def api_key_line)
qed


end
