(* ===== verification/Unit_Tests.thy ===== *)
theory Unit_Tests
  imports Transport Drop_Logger
begin

text \<open>
  The unit tests of the crate's pure modules, as predicates of the model, and the proof that
  the model passes them: a check of the model against the behaviour the repository itself
  pins down. A test is the conjunction of its assertions, and an \<^verbatim>\<open>unwrap\<close> that would panic
  is \<open>False\<close>. The wall clock is an argument of the tests that read it, and \<^verbatim>\<open>serde_json\<close> of those
  that use it.
\<close>

subsection \<open>\<^verbatim>\<open>severity.rs\<close>\<close>

definition wire_values_match_the_oppex_scale :: bool where
  "wire_values_match_the_oppex_scale \<longleftrightarrow>
     1 = severity_value Lowest \<and> 2 = severity_value Low \<and> 3 = severity_value Medium \<and>
     4 = severity_value High \<and> 5 = severity_value Critical"

definition from_value_round_trips_every_severity :: bool where
  "from_value_round_trips_every_severity \<longleftrightarrow>
     list_all (\<lambda>severity. (Inr severity :: (Severity, unit IncidentError) result) = from_value (severity_value severity))
       [Lowest, Low, Medium, High, Critical]"

definition from_value_rejects_values_outside_the_scale :: bool where
  "from_value_rejects_values_outside_the_scale \<longleftrightarrow>
     list_all (\<lambda>v. isl (from_value v :: (Severity, unit IncidentError) result)) [0, 6, 255]"

definition display_uses_the_documented_names :: bool where
  "display_uses_the_documented_names \<longleftrightarrow> lit ''MEDIUM'' = severity_to_string Medium"

lemma severity_tests_pass:
  "wire_values_match_the_oppex_scale" "from_value_round_trips_every_severity"
  "from_value_rejects_values_outside_the_scale" "display_uses_the_documented_names"
  by (simp_all add: wire_values_match_the_oppex_scale_def from_value_round_trips_every_severity_def
      from_value_rejects_values_outside_the_scale_def display_uses_the_documented_names_def from_value_def invalid_def)

subsection \<open>\<^verbatim>\<open>request.rs\<close>\<close>

definition valid_builder :: IncidentRequestBuilder where
  "valid_builder = with_severity Medium (with_source (lit ''source'') (with_title (lit ''title'') request_builder))"

abbreviation try_build :: "int \<Rightarrow> IncidentRequestBuilder \<Rightarrow> (IncidentRequest, unit IncidentError) result" where
  "try_build \<equiv> build"

definition build_applies_the_documented_defaults :: "int \<Rightarrow> bool" where
  "build_applies_the_documented_defaults now =
     (case try_build now valid_builder of
        Inl _ \<Rightarrow> False
      | Inr request \<Rightarrow> 1 = priority request \<and> 0 < src_timestamp request \<and> component request = None)"

definition build_keeps_explicit_values :: "int \<Rightarrow> bool" where
  "build_keeps_explicit_values now =
     (case try_build now
        (with_details (lit ''{\"p99\":1200}'') (with_incident_type (lit ''latency'') (with_group (lit ''payments'') (
         with_component (lit ''api'') (with_service_key (lit ''request-service-key'') (
         with_src_timestamp 1700000000000 (with_priority 4 valid_builder))))))) of
        Inl _ \<Rightarrow> False
      | Inr request \<Rightarrow>
          4 = priority request \<and> 1700000000000 = src_timestamp request \<and>
          Some (lit ''request-service-key'') = service_key request \<and> Some (lit ''latency'') = incident_type request)"

definition assert_invalid :: "(IncidentRequest, unit IncidentError) result \<Rightarrow> bool" where
  "assert_invalid r = (case r of Inl e \<Rightarrow> is_invalid_request e | Inr _ \<Rightarrow> False)"

definition build_rejects_missing_or_blank_required_fields :: "int \<Rightarrow> bool" where
  "build_rejects_missing_or_blank_required_fields now \<longleftrightarrow>
     assert_invalid (build now (with_severity Low (with_source (lit ''source'') request_builder))) \<and>
     assert_invalid (build now (with_severity Low (with_title (lit ''title'') request_builder))) \<and>
     assert_invalid (build now (with_source (lit ''source'') (with_title (lit ''title'') request_builder))) \<and>
     assert_invalid (build now (with_title (lit ''   '') valid_builder)) \<and>
     assert_invalid (build now (with_source [9] valid_builder))"

definition build_enforces_the_source_length_cap :: "int \<Rightarrow> bool" where
  "build_enforces_the_source_length_cap now \<longleftrightarrow>
     \<not> isl (try_build now (with_source (replicate MAX_SOURCE_LENGTH 97) valid_builder)) \<and>
     assert_invalid (build now (with_source (replicate (MAX_SOURCE_LENGTH + 1) 97) valid_builder))"

definition build_rejects_a_blank_optional_field :: "int \<Rightarrow> bool" where
  "build_rejects_a_blank_optional_field now \<longleftrightarrow>
     assert_invalid (build now (with_component (lit ''  '') valid_builder)) \<and>
     assert_invalid (build now (with_group [] valid_builder)) \<and>
     assert_invalid (build now (with_service_key (lit '' '') valid_builder))"

definition build_rejects_out_of_range_numbers :: "int \<Rightarrow> bool" where
  "build_rejects_out_of_range_numbers now \<longleftrightarrow>
     assert_invalid (build now (with_priority 0 valid_builder)) \<and> assert_invalid (build now (with_priority 6 valid_builder)) \<and>
     assert_invalid (build now (with_src_timestamp 0 valid_builder)) \<and>
     assert_invalid (build now (with_src_timestamp (- 1) valid_builder))"

lemma assert_invalid_build: "assert_invalid (build now b) \<longleftrightarrow> problems now b \<noteq> []"
  by (auto simp: assert_invalid_def build_first_complaint first_complaint_def split: list.splits)

lemma isl_build: "\<not> isl (try_build now b) \<longleftrightarrow> problems now b = []"
  by (auto simp: build_first_complaint first_complaint_def split: list.splits)

lemma is_blank_replicate [simp]: "is_blank (replicate n c) \<longleftrightarrow> n = 0 \<or> is_whitespace c"
  by (auto simp: is_blank_iff)

lemmas builder_eval = problems_Nil_iff effective_timestamp_def valid_builder_def accessors literals is_whitespace_def
  MAX_SOURCE_LENGTH_def

lemma request_tests_pass:
  assumes "0 < now_millis now"
  shows "build_applies_the_documented_defaults now" and "build_keeps_explicit_values now"
    and "build_rejects_missing_or_blank_required_fields now" and "build_enforces_the_source_length_cap now"
    and "build_rejects_a_blank_optional_field now" and "build_rejects_out_of_range_numbers now"
proof -
  have ok: "problems now b = [] \<Longrightarrow> try_build now b = Inr (requested now b)" for b by (simp add: build_eq_Inr)
  show "build_applies_the_documented_defaults now"
    using assms ok [of valid_builder] by (simp add: build_applies_the_documented_defaults_def requested_def builder_eval)
  show "build_keeps_explicit_values now"
    unfolding build_keeps_explicit_values_def
    by (subst ok) (simp_all add: requested_def builder_eval)
  show "build_rejects_missing_or_blank_required_fields now"
    by (simp add: build_rejects_missing_or_blank_required_fields_def assert_invalid_build builder_eval)
  show "build_enforces_the_source_length_cap now"
    using assms by (simp add: build_enforces_the_source_length_cap_def assert_invalid_build isl_build builder_eval)
  show "build_rejects_a_blank_optional_field now"
    by (simp add: build_rejects_a_blank_optional_field_def assert_invalid_build builder_eval)
  show "build_rejects_out_of_range_numbers now"
    by (simp add: build_rejects_out_of_range_numbers_def assert_invalid_build builder_eval)
qed

subsection \<open>\<^verbatim>\<open>wire.rs\<close>\<close>

definition wire_request :: "int \<Rightarrow> (IncidentRequest, unit IncidentError) result" where
  "wire_request now =
     build now (with_src_timestamp 1700000000000 (with_priority 2 (with_severity High (
       with_source (lit ''source'') (with_title (lit ''title'') request_builder)))))"

definition serialize_omits_absent_optional_fields :: "('v, 'e) serde_json \<Rightarrow> int \<Rightarrow> bool" where
  "serialize_omits_absent_optional_fields J now =
     (case wire_request now of
        Inl _ \<Rightarrow> False
      | Inr r \<Rightarrow>
          lit ''{\"title\":\"title\",\"source\":\"source\",\"severity\":4,\"priority\":2,\"srcTimestamp\":1700000000000}'' =
            serialize_request J r None)"

definition serialize_uses_the_agreed_field_names_and_order :: "('v, 'e) serde_json \<Rightarrow> int \<Rightarrow> bool" where
  "serialize_uses_the_agreed_field_names_and_order J now =
     (case try_build now
        (with_details (lit ''{\"p99\":1200}'') (with_incident_type (lit ''latency'') (with_group (lit ''payments'') (
         with_component (lit ''api'') (with_src_timestamp 1 (with_severity Low (
         with_source (lit ''source'') (with_title (lit ''title'') request_builder)))))))) of
        Inl _ \<Rightarrow> False
      | Inr r \<Rightarrow>
          lit ''{\"serviceKey\":\"resolved-service-key\",\"title\":\"title\",\"source\":\"source\",\"severity\":2,'' @
          lit ''\"priority\":1,\"srcTimestamp\":1,\"component\":\"api\",\"group\":\"payments\",\"type\":\"latency\",'' @
          lit ''\"detailsJSON\":\"{'' @ [92, 34] @ lit ''p99'' @ [92, 34] @ lit '':1200}\"}'' =
            serialize_request J r (Some (lit ''resolved-service-key'')))"

text \<open>A title with a quote and a line feed, and its JSON form.\<close>

definition quoted_title :: rstring where
  "quoted_title = lit ''a \"quoted\" '' @ [10] @ lit '' title''"

definition serialize_escapes_values :: "('v, 'e) serde_json \<Rightarrow> int \<Rightarrow> bool" where
  "serialize_escapes_values J now =
     (case try_build now
        (with_src_timestamp 1 (with_severity Low (with_source (lit ''source'') (with_title quoted_title request_builder)))) of
        Inl _ \<Rightarrow> False
      | Inr r \<Rightarrow>
          let payload = serialize_request J r None
          in str_contains payload
               (lit ''\"title\":\"a '' @ [92] @ lit ''\"quoted'' @ [92] @ lit ''\" '' @ [92] @ lit ''n title\"'') \<and>
             (case from_str J payload of
                Inl _ \<Rightarrow> False
              | Inr v \<Rightarrow>
                  Option.bind (Option.bind (as_object J v) (\<lambda>get. get (lit ''title''))) (as_str J) =
                    Some quoted_title))"

definition parse_reads_the_envelope :: "('v, 'e) serde_json \<Rightarrow> bool" where
  "parse_reads_the_envelope J =
     (case parse_response J 200
        (lit ''{\"success\":true,\"code\":201,\"message\":\"created\",\"data\":\"INC-1\"}'') of
        Inl _ \<Rightarrow> False
      | Inr response \<Rightarrow>
          is_successful response \<and> 201 = response_code response \<and>
          Some (lit ''created'') = response_message response \<and> Some (lit ''INC-1'') = incident_id response)"

definition parse_falls_back_to_the_http_status :: "('v, 'e) serde_json \<Rightarrow> bool" where
  "parse_falls_back_to_the_http_status J =
     (case parse_response J 202 (lit ''   '') of
        Inl _ \<Rightarrow> False
      | Inr response \<Rightarrow> is_successful response \<and> 202 = response_code response \<and> incident_id response = None)"

definition parse_never_echoes_a_non_json_body :: "('v, 'e) serde_json \<Rightarrow> bool" where
  "parse_never_echoes_a_non_json_body J =
     (case parse_response J 502 (lit ''<html>X-API-KEY: super-secret</html>'') of
        Inr _ \<Rightarrow> False
      | Inl failure \<Rightarrow> is_delivery failure \<and> \<not> str_contains (error_to_string failure) (lit ''super-secret''))"

lemma test_builds:
  "\<not> is_blank t \<Longrightarrow> b_title b = Some t \<Longrightarrow> \<not> is_blank src \<Longrightarrow> b_source b = Some src \<Longrightarrow> length src \<le> MAX_SOURCE_LENGTH \<Longrightarrow>
   b_severity b \<noteq> None \<Longrightarrow> unwrap_or (b_priority b) 1 \<in> {1..5} \<Longrightarrow> 0 < effective_timestamp now b \<Longrightarrow>
   list_all nonblank_if_set [b_service_key b, b_component b, b_group b, b_incident_type b, b_details b] \<Longrightarrow>
   try_build now b = Inr (requested now b)"
  by (simp add: build_eq_Inr problems_Nil_iff)

lemma serialize_tests_pass:
  assumes "json_library J"
  shows "serialize_omits_absent_optional_fields J now" "serialize_uses_the_agreed_field_names_and_order J now"
  subgoal
    unfolding serialize_omits_absent_optional_fields_def wire_request_def json_library.serializes [OF assms]
    by (subst test_builds) (simp_all add: requested_def builder_eval payload_eval, simp)
  subgoal
    unfolding serialize_uses_the_agreed_field_names_and_order_def json_library.serializes [OF assms]
    by (subst test_builds) (simp_all add: requested_def builder_eval payload_eval, simp)
  done

definition escaped_builder :: IncidentRequestBuilder where
  "escaped_builder =
     with_src_timestamp 1 (with_severity Low (with_source (lit ''source'') (with_title quoted_title request_builder)))"

lemma escaped_payload:
  "serialize_request rfc_serde (requested now escaped_builder) None =
     [123] @ (lit ''\"title\":\"a '' @ [92] @ lit ''\"quoted'' @ [92] @ lit ''\" '' @ [92] @ lit ''n title\"'') @
     lit '',\"source\":\"source\",\"severity\":2,\"priority\":1,\"srcTimestamp\":1}''"
  by (simp add: escaped_builder_def quoted_title_def requested_def builder_eval payload_eval)

lemma serialize_escapes_values_passes:
  assumes "json_library J"
  shows "serialize_escapes_values J now"
proof -
  let ?needle = "lit ''\"title\":\"a '' @ [92] @ lit ''\"quoted'' @ [92] @ lit ''\" '' @ [92] @ lit ''n title\"''"
  let ?r = "requested now escaped_builder"
  let ?payload = "serialize_request J ?r None"
  have b: "try_build now escaped_builder = Inr ?r"
    by (simp add: build_eq_Inr escaped_builder_def quoted_title_def builder_eval)
  have c: "str_contains ?payload ?needle"
    unfolding json_library.serializes [OF assms] escaped_payload by (rule str_containsI)
  have "list_all (\<lambda>m. ordinary (snd m)) (wire_members ?r None)"
    by (rule wire_members_ordinary)
      (simp_all add: requested_def escaped_builder_def accessors effective_timestamp_def i64_try_from_def)
  moreover have "map_of (wire_members ?r None) (lit ''title'') = Some (JStr quoted_title)"
    by (simp add: wire_member_lookup requested_def escaped_builder_def accessors)
  ultimately obtain v get where "from_str J ?payload = Inr v" "as_object J v = Some get"
    "Option.bind (get (lit ''title'')) (as_str J) = Some quoted_title"
    using json_library.members [OF assms payload_members [OF json_library.quoting [OF assms]] wire_members_distinct] by metis
  then show ?thesis
    using b c unfolding serialize_escapes_values_def escaped_builder_def [symmetric] by (simp add: Let_def)
qed

lemma envelope_read:
  "read_object (lit ''{\"success\":true,\"code\":201,\"message\":\"created\",\"data\":\"INC-1\"}'') =
     Some [(lit ''success'', JBool True), (lit ''code'', JInt 201), (lit ''message'', JStr (lit ''created'')),
       (lit ''data'', JStr (lit ''INC-1''))]"
  by code_simp

lemma parse_tests_pass:
  assumes "json_library J"
  shows "parse_reads_the_envelope J" "parse_falls_back_to_the_http_status J" "parse_never_echoes_a_non_json_body J"
proof -
  show "parse_reads_the_envelope J"
    using json_library.envelope [OF assms envelope_read]
    by (simp add: parse_reads_the_envelope_def literals is_whitespace_def i64_try_from_def i32_try_from_def
        response_new_def accessors)
  show "parse_falls_back_to_the_http_status J"
    by (simp add: parse_falls_back_to_the_http_status_def parse_response_def is_whitespace_def response_new_def
        accessors is_blank_iff lit_def)
  obtain e where "from_str J (lit ''<html>X-API-KEY: super-secret</html>'') = Inl e"
    using json_library.rejects [OF assms, of 60 "lit ''html>X-API-KEY: super-secret</html>''"]
    by (auto simp: literals is_json_space_def)
  then have "parse_response J 502 (lit ''<html>X-API-KEY: super-secret</html>'') =
      Inl (Delivery (non_json_message 502) 502 False (Some e))"
    by (simp add: parse_response_eq_Inl is_blank_iff literals is_whitespace_def)
  moreover have "\<not> str_contains (non_json_message 502) (lit ''super-secret'')" by code_simp
  ultimately show "parse_never_echoes_a_non_json_body J" by (simp add: parse_never_echoes_a_non_json_body_def)
qed

subsection \<open>\<^verbatim>\<open>retry.rs\<close>\<close>

definition FAST :: "duration list" where
  "FAST = replicate 5 (from_millis 1)"

text \<open>An interruptible wait that nothing disturbs before its timeout.\<close>

definition wait_alone :: "Interrupt \<Rightarrow> 'w waiting" where
  "wait_alone i d w = (case wait i d [(d + 1, signalled i)] of Some (flag, _) \<Rightarrow> (flag, w) | None \<Rightarrow> (False, w))"

definition the_retryable_status_list_is_explicit :: bool where
  "the_retryable_status_list_is_explicit \<longleftrightarrow>
     list_all is_retryable_status [429, 500, 502, 503, 504] \<and>
     list_all (\<lambda>status. \<not> is_retryable_status status) [400, 401, 403, 404, 409, 422, 501, 505]"

definition the_schedule_doubles_from_half_a_second :: bool where
  "the_schedule_doubles_from_half_a_second \<longleftrightarrow>
     [from_millis 500, from_millis 1000, from_millis 2000, from_millis 4000, from_millis 8000] = DEFAULT_RETRY_DELAYS"

text \<open>The operations of the tests; their state is the cell that counts attempts.\<close>

definition third_time_lucky :: "(nat, rstring, unit) operation" where
  "third_time_lucky cell =
     (let n = cell + 1
      in (if n < 3 then Inl (delivery (lit ''503'') 503 True) else Inr (lit ''delivered''), n))"

definition always :: "unit IncidentError \<Rightarrow> (nat, unit, unit) operation" where
  "always failure cell = (Inl failure, cell + 1)"

definition stops_at_the_first_success :: bool where
  "stops_at_the_first_success \<longleftrightarrow>
     execute_with_retry FAST (wait_alone interrupt_new) third_time_lucky 0 = (Inr (lit ''delivered''), 3)"

definition does_not_retry_a_non_retryable_failure :: bool where
  "does_not_retry_a_non_retryable_failure =
     (case execute_with_retry FAST (wait_alone interrupt_new) (always (delivery (lit ''401'') 401 False)) 0 of
        (r, n) \<Rightarrow> isl r \<and> 1 = n)"

definition exhausts_the_schedule_without_rewriting_an_http_failure :: bool where
  "exhausts_the_schedule_without_rewriting_an_http_failure =
     (case execute_with_retry FAST (wait_alone interrupt_new)
        (always (delivery (lit ''Oppex returned HTTP 503'') 503 True)) 0 of
        (Inr _, _) \<Rightarrow> False
      | (Inl failure, n) \<Rightarrow>
          length FAST + 1 = n \<and> lit ''Oppex returned HTTP 503'' = error_to_string failure)"

definition annotates_only_a_failure_that_never_reached_a_status_line :: bool where
  "annotates_only_a_failure_that_never_reached_a_status_line =
     (case execute_with_retry FAST (wait_alone interrupt_new)
        (always (delivery (lit ''connection refused'') NO_STATUS_CODE True)) 0 of
        (Inr _, _) \<Rightarrow> False
      | (Inl failure, _) \<Rightarrow> lit ''connection refused (after 6 attempts)'' = error_to_string failure)"

definition a_signalled_interrupt_ends_the_backoff_immediately :: bool where
  "a_signalled_interrupt_ends_the_backoff_immediately =
     (case execute_with_retry DEFAULT_RETRY_DELAYS (wait_alone (signal interrupt_new))
        (always (delivery (lit ''503'') 503 True)) 0 of
        (Inr _, _) \<Rightarrow> False
      | (Inl failure, _) \<Rightarrow> str_contains (error_to_string failure) (lit ''interrupted''))"

lemma wait_alone_fresh: "wait_alone interrupt_new d w = (False, w)"
  by (simp add: wait_alone_def wait_def interrupt_new_def)

lemma wait_alone_signalled: "wait_alone (signal interrupt_new) d w = (True, w)"
  by (simp add: wait_alone_def wait_def signal_def)

lemmas retry_eval = execute_with_retry_def retry_loop.simps wait_alone_fresh wait_alone_signalled FAST_def
  third_time_lucky_def always_def delivery_def NO_STATUS_CODE_def

lemma retry_tests_pass:
  "the_retryable_status_list_is_explicit" "the_schedule_doubles_from_half_a_second"
  "stops_at_the_first_success" "does_not_retry_a_non_retryable_failure"
  "exhausts_the_schedule_without_rewriting_an_http_failure"
  subgoal by (simp add: the_retryable_status_list_is_explicit_def is_retryable_status_def)
  subgoal by (simp add: the_schedule_doubles_from_half_a_second_def DEFAULT_RETRY_DELAYS_def)
  subgoal by (simp add: stops_at_the_first_success_def retry_eval)
  subgoal by (simp add: does_not_retry_a_non_retryable_failure_def retry_eval)
  subgoal by (simp add: exhausts_the_schedule_without_rewriting_an_http_failure_def retry_eval)
  done

lemma retry_message_tests_pass:
  "annotates_only_a_failure_that_never_reached_a_status_line" "a_signalled_interrupt_ends_the_backoff_immediately"
  subgoal
    by (simp add: annotates_only_a_failure_that_never_reached_a_status_line_def retry_eval
        show_nat.simps [of "Suc n" for n] literals)
  subgoal
  proof -
    have "str_contains (error_to_string (interrupted_error :: unit IncidentError)) (lit ''interrupted'')"
      using str_containsI [of "lit ''incident delivery was ''" "lit ''interrupted''" "lit '' during retry''"]
      by (simp add: interrupted_error_def delivery_def literals)
    then show ?thesis
      by (simp add: a_signalled_interrupt_ends_the_backoff_immediately_def retry_eval DEFAULT_RETRY_DELAYS_def)
  qed
  done

subsection \<open>\<^verbatim>\<open>drop_logger.rs\<close>\<close>

text \<open>Ten drops at moments inside the first minute, and two without a minimum distance.\<close>

definition holds_drops_back_until_the_interval_elapses :: "duration list \<Rightarrow> bool" where
  "holds_drops_back_until_the_interval_elapses moments \<longleftrightarrow>
     list_all (\<lambda>summary. summary = None)
       (fst (record_drops (map (\<lambda>t. (t, t)) moments) (drop_logger_new (from_secs 60) 0)))"

definition reports_the_accumulated_count_once_the_interval_elapses :: "instant \<Rightarrow> instant \<Rightarrow> bool" where
  "reports_the_accumulated_count_once_the_interval_elapses t t' \<longleftrightarrow>
     fst (record_drops [(t, t), (t', t')] (drop_logger_new 0 0)) = [Some 1, Some 1]"

lemma record_drops_early:
  "interval lg = from_secs 60 \<Longrightarrow> started_at lg = 0 \<Longrightarrow> list_all (\<lambda>t. t < from_secs 60) ts \<Longrightarrow>
     list_all (\<lambda>summary. summary = None) (fst (record_drops (map (\<lambda>t. (t, t)) ts) lg))"
proof (induction ts arbitrary: lg)
  case (Cons t ts)
  then have r: "record_drop t t lg = (None, lg\<lparr>dropped := dropped lg + 1\<rparr>)"
    by (simp add: record_drop_def elapsed_def Let_def)
  from Cons.IH [of "lg\<lparr>dropped := dropped lg + 1\<rparr>"] Cons.prems r show ?case by (auto split: prod.splits)
qed simp

lemma drop_logger_tests_pass:
  "list_all (\<lambda>t. t < from_secs 60) moments \<Longrightarrow> holds_drops_back_until_the_interval_elapses moments"
  "reports_the_accumulated_count_once_the_interval_elapses t t'"
  by (simp_all add: holds_drops_back_until_the_interval_elapses_def record_drops_early drop_logger_new_def
      reports_the_accumulated_count_once_the_interval_elapses_def record_drop_def elapsed_def)

text \<open>
  The model passes the crate's unit tests: every test of \<^verbatim>\<open>severity.rs\<close>, \<^verbatim>\<open>request.rs\<close>,
  \<^verbatim>\<open>wire.rs\<close>, \<^verbatim>\<open>retry.rs\<close> and \<^verbatim>\<open>drop_logger.rs\<close>, read as a predicate of the model, holds at any
  wall clock past the epoch and with any \<^verbatim>\<open>serde_json\<close> that behaves as documented, and for the drop logger at any moments inside its interval.
\<close>

lemma unit_tests_pass:
  assumes "json_library J" and "0 < now_millis now" and "list_all (\<lambda>t. t < from_secs 60) moments"
  shows "wire_values_match_the_oppex_scale \<and> from_value_round_trips_every_severity \<and>
    from_value_rejects_values_outside_the_scale \<and> display_uses_the_documented_names \<and>
    build_applies_the_documented_defaults now \<and> build_keeps_explicit_values now \<and>
    build_rejects_missing_or_blank_required_fields now \<and> build_enforces_the_source_length_cap now \<and>
    build_rejects_a_blank_optional_field now \<and> build_rejects_out_of_range_numbers now \<and>
    serialize_omits_absent_optional_fields J now \<and> serialize_uses_the_agreed_field_names_and_order J now \<and>
    serialize_escapes_values J now \<and> parse_reads_the_envelope J \<and> parse_falls_back_to_the_http_status J \<and>
    parse_never_echoes_a_non_json_body J \<and> the_retryable_status_list_is_explicit \<and>
    the_schedule_doubles_from_half_a_second \<and> stops_at_the_first_success \<and>
    does_not_retry_a_non_retryable_failure \<and> exhausts_the_schedule_without_rewriting_an_http_failure \<and>
    annotates_only_a_failure_that_never_reached_a_status_line \<and>
    a_signalled_interrupt_ends_the_backoff_immediately \<and>
    holds_drops_back_until_the_interval_elapses moments \<and>
    reports_the_accumulated_count_once_the_interval_elapses t t'"
  using severity_tests_pass request_tests_pass [OF assms(2)] serialize_tests_pass [OF assms(1)]
    serialize_escapes_values_passes [OF assms(1)] parse_tests_pass [OF assms(1)] retry_tests_pass retry_message_tests_pass
    drop_logger_tests_pass assms(3) by simp

end
