(* ===== verification/Client_Tests.thy ===== *)
theory Client_Tests
  imports Shared_Posts Stub_Network Unit_Tests
begin

text \<open>
  The tests of \<^verbatim>\<open>client.rs\<close>, as predicates of the model, over \<^verbatim>\<open>serde_json\<close>, the HTTP of the agent
  and the URL the server got from the operating system. The network is the server of
  \<^verbatim>\<open>Stub_Network\<close>, down to the bytes of each connection. What is queued is run by one worker after
  the call. The model passes them with any \<^verbatim>\<open>serde_json\<close> that behaves as documented
  (\<open>json_library\<close>) and any agent that speaks HTTP/1.1 (\<open>http_agent\<close>).
\<close>

definition FAST_RETRIES :: "duration list" where
  "FAST_RETRIES = replicate 5 (from_millis 1)"

text \<open>\<^verbatim>\<open>RecordedRequest::payload\<close>, where \<open>None\<close> is its panic, and a member of it.\<close>

definition payload :: "('v, 'e) serde_json \<Rightarrow> RecordedRequest \<Rightarrow> 'v option" where
  "payload J r = (case from_str J (rr_body r) of Inl _ \<Rightarrow> None | Inr v \<Rightarrow> Some v)"

definition member :: "('v, 'e) serde_json \<Rightarrow> 'v \<Rightarrow> rstring \<Rightarrow> 'v option" where
  "member J v name = Option.bind (as_object J v) (\<lambda>get. get name)"

abbreviation member_str :: "('v, 'e) serde_json \<Rightarrow> 'v \<Rightarrow> rstring \<Rightarrow> rstring option" where
  "member_str J v name \<equiv> Option.bind (member J v name) (as_str J)"

abbreviation member_int :: "('v, 'e) serde_json \<Rightarrow> 'v \<Rightarrow> rstring \<Rightarrow> int option" where
  "member_int J v name \<equiv> Option.bind (member J v name) (as_i64 J)"

text \<open>The payload of the next request, if the server has one and it is JSON.\<close>

definition next_payload :: "('v, 'e) serde_json \<Rightarrow> StubServer \<Rightarrow> 'v option" where
  "next_payload J S = Option.bind (next_request S) (\<lambda>(r, _). payload J r)"

definition CREATED :: rstring where
  "CREATED = lit ''{\"success\":true,\"code\":200,\"message\":\"created\",\"data\":\"INC-42\"}''"

definition client_for :: "rstring \<Rightarrow> rstring option \<Rightarrow> (Task IncidentClient, unit IncidentError) result" where
  "client_for url skey =
     (let builder = with_retry_delays FAST_RETRIES (with_test_endpoint url (
                      with_api_key (lit ''api-key'') client_builder));
          builder = (case skey of Some k \<Rightarrow> with_client_service_key k builder | None \<Rightarrow> builder)
      in client_build None 0 builder)"

definition test_request :: "(IncidentRequest, unit IncidentError) result" where
  "test_request =
     build 0 (with_src_timestamp 1700000000000 (with_severity High (
       with_source (lit ''checkout-api'') (with_title (lit ''Checkout latency'') request_builder))))"

definition keyed_request :: "(IncidentRequest, unit IncidentError) result" where
  "keyed_request =
     build 1700000000000000000 (with_service_key (lit ''request-service-key'') (with_severity Low (
       with_source (lit ''source'') (with_title (lit ''title'') request_builder))))"

text \<open>A test body that starts from a client and a request; a failed \<^verbatim>\<open>expect\<close> is \<open>False\<close>.\<close>

definition given ::
  "('c, 'e) result \<Rightarrow> ('r, 'f) result \<Rightarrow> ('c \<Rightarrow> 'r \<Rightarrow> bool) \<Rightarrow> bool" where
  "given built wanted test =
     (case built of Inl _ \<Rightarrow> False | Inr c \<Rightarrow> (case wanted of Inl _ \<Rightarrow> False | Inr r \<Rightarrow> test c r))"

text \<open>A test's world when it has started its server.\<close>

abbreviation serving_world :: "(u16 \<times> rstring) list \<Rightarrow> StubServer World" where
  "serving_world responses \<equiv> stub_world (stub_start responses)"

definition is_ClientClosed :: "('a, 'e IncidentError) result \<Rightarrow> bool" where
  "is_ClientClosed r = (case r of Inl ClientClosed \<Rightarrow> True | _ \<Rightarrow> False)"

definition is_InvalidRequest :: "('a, 'e IncidentError) result \<Rightarrow> bool" where
  "is_InvalidRequest r = (case r of Inl (InvalidRequest _) \<Rightarrow> True | _ \<Rightarrow> False)"

subsection \<open>The tests\<close>

definition build_rejects_a_missing_or_blank_api_key :: bool where
  "build_rejects_a_missing_or_blank_api_key \<longleftrightarrow>
     is_InvalidRequest (client_build None 0 client_builder :: (Task IncidentClient, unit IncidentError) result) \<and>
     is_InvalidRequest (client_build None 0 (with_api_key (lit ''   '') client_builder) ::
       (Task IncidentClient, unit IncidentError) result)"

definition post_sends_the_agreed_payload_and_header :: "('v, 'e) serde_json \<Rightarrow> 'e Http \<Rightarrow> rstring \<Rightarrow> bool" where
  "post_sends_the_agreed_payload_and_header J H url =
     given (client_for url (Some (lit ''client-service-key''))) test_request (\<lambda>client request.
       case post J (stub_net H) client request (serving_world [(200, CREATED)]) of
         (Inl _, _) \<Rightarrow> False
       | (Inr response, W) \<Rightarrow>
           is_successful response \<and> Some (lit ''INC-42'') = incident_id response \<and>
           (case next_request (net W) of
              None \<Rightarrow> False
            | Some (recorded, _) \<Rightarrow>
                Some (lit ''api-key'') = recorded_header recorded (lit ''X-API-KEY'') \<and>
                Some (lit ''application/json'') = recorded_header recorded (lit ''Content-Type'') \<and>
                (case payload J recorded of
                   None \<Rightarrow> False
                 | Some v \<Rightarrow>
                     member_str J v (lit ''serviceKey'') = Some (lit ''client-service-key'') \<and>
                     member_str J v (lit ''title'') = Some (lit ''Checkout latency'') \<and>
                     member_int J v (lit ''severity'') = Some 4 \<and> member_int J v (lit ''priority'') = Some 1 \<and>
                     member_int J v (lit ''srcTimestamp'') = Some 1700000000000 \<and>
                     member J v (lit ''component'') = None)))"

definition a_request_service_key_overrides_the_clients :: "('v, 'e) serde_json \<Rightarrow> 'e Http \<Rightarrow> rstring \<Rightarrow> bool" where
  "a_request_service_key_overrides_the_clients J H url =
     given (client_for url (Some (lit ''client-service-key''))) keyed_request (\<lambda>client request.
       case post J (stub_net H) client request (serving_world [(200, CREATED)]) of
         (Inl _, _) \<Rightarrow> False
       | (Inr _, W) \<Rightarrow>
           (case next_payload J (net W) of
              None \<Rightarrow> False
            | Some v \<Rightarrow> member_str J v (lit ''serviceKey'') = Some (lit ''request-service-key'')))"

definition post_requires_a_service_key_somewhere :: "('v, 'e) serde_json \<Rightarrow> 'e Http \<Rightarrow> rstring \<Rightarrow> bool" where
  "post_requires_a_service_key_somewhere J H url =
     given (client_for url None) test_request (\<lambda>client request.
       case post J (stub_net H) client request (serving_world [(200, CREATED)]) of
         (r, W) \<Rightarrow> is_InvalidRequest r \<and> assert_no_further_request (net W))"

definition service_routing_omits_the_service_key :: "('v, 'e) serde_json \<Rightarrow> 'e Http \<Rightarrow> rstring \<Rightarrow> bool" where
  "service_routing_omits_the_service_key J H url =
     given (client_for url (Some (lit ''client-service-key''))) test_request (\<lambda>client request.
       case post_with_service_routing J (stub_net H) client request (serving_world [(200, CREATED)]) of
         (Inl _, _) \<Rightarrow> False
       | (Inr _, W) \<Rightarrow>
           (case next_payload J (net W) of None \<Rightarrow> False | Some v \<Rightarrow> member J v (lit ''serviceKey'') = None))"

definition service_routing_refuses_a_request_service_key :: "('v, 'e) serde_json \<Rightarrow> 'e Http \<Rightarrow> rstring \<Rightarrow> bool" where
  "service_routing_refuses_a_request_service_key J H url =
     given (client_for url None) keyed_request (\<lambda>client request.
       case post_with_service_routing J (stub_net H) client request (serving_world [(200, CREATED)]) of
         (r, W) \<Rightarrow> is_InvalidRequest r \<and> assert_no_further_request (net W))"

text \<open>\<^verbatim>\<open>next_request\<close> so many times; \<open>None\<close> if it panics.\<close>

fun next_requests :: "nat \<Rightarrow> StubServer \<Rightarrow> StubServer option" where
  "next_requests 0 S = Some S"
| "next_requests (Suc n) S = Option.bind (next_request S) (\<lambda>(_, S'). next_requests n S')"

definition post_retries_a_retryable_status :: "('v, 'e) serde_json \<Rightarrow> 'e Http \<Rightarrow> rstring \<Rightarrow> bool" where
  "post_retries_a_retryable_status J H url =
     given (client_for url (Some (lit ''service-key''))) test_request (\<lambda>client request.
       case post J (stub_net H) client request (serving_world [(503, []), (503, []), (200, CREATED)]) of
         (Inl _, _) \<Rightarrow> False
       | (Inr response, W) \<Rightarrow>
           is_successful response \<and>
           (case next_requests 3 (net W) of None \<Rightarrow> False | Some S \<Rightarrow> assert_no_further_request S))"

definition UNAUTHORIZED :: rstring where
  "UNAUTHORIZED = lit ''{\"success\":false,\"message\":\"invalid api key\"}''"

definition post_fails_immediately_on_a_non_retryable_status :: "('v, 'e) serde_json \<Rightarrow> 'e Http \<Rightarrow> rstring \<Rightarrow> bool" where
  "post_fails_immediately_on_a_non_retryable_status J H url =
     given (client_for url (Some (lit ''service-key''))) test_request (\<lambda>client request.
       case post J (stub_net H) client request (serving_world [(401, UNAUTHORIZED)]) of
         (Inr _, _) \<Rightarrow> False
       | (Inl failure, W) \<Rightarrow>
           Some 401 = status_code failure \<and> \<not> is_retryable failure \<and>
           str_contains (error_to_string failure) (lit ''invalid api key'') \<and>
           (case next_requests 1 (net W) of None \<Rightarrow> False | Some S \<Rightarrow> assert_no_further_request S))"

definition post_async_delivers_and_validates_on_the_calling_thread ::
  "('v, 'e) serde_json \<Rightarrow> 'e Http \<Rightarrow> rstring \<Rightarrow> bool" where
  "post_async_delivers_and_validates_on_the_calling_thread J H url \<longleftrightarrow>
     given (client_for url None) test_request (\<lambda>client request.
       is_InvalidRequest (fst (post_async 0 0 request client) :: (unit, unit IncidentError) result)) \<and>
     given (client_for url (Some (lit ''service-key''))) test_request (\<lambda>routed request.
       case post_async 0 0 request routed of
         (Inl (_ :: unit IncidentError), _) \<Rightarrow> False
       | (Inr _, routed) \<Rightarrow>
           (case tasks (state (dispatcher routed)) of
              [] \<Rightarrow> False
            | task # _ \<Rightarrow>
                (case run_task J (stub_net H) (inner routed) task (serving_world [(200, CREATED)]) of
                   (_, W) \<Rightarrow>
                     (case next_payload J (net W) of
                        None \<Rightarrow> False
                      | Some v \<Rightarrow> member_str J v (lit ''serviceKey'') = Some (lit ''service-key'')))))"

definition every_post_fails_on_a_closed_client :: "('v, 'e) serde_json \<Rightarrow> 'e Http \<Rightarrow> rstring \<Rightarrow> bool" where
  "every_post_fails_on_a_closed_client J H url =
     given (client_for url (Some (lit ''service-key''))) test_request (\<lambda>client request.
       let client = close_alone 0 (close_alone 0 client)
       in case post J (stub_net H) client request (serving_world [(200, CREATED)]) of (r1, W1) \<Rightarrow>
            is_ClientClosed r1 \<and>
            is_ClientClosed (fst (post_async 0 0 request client) :: (unit, unit IncidentError) result) \<and>
            (case post_with_service_routing J (stub_net H) client request W1 of (r2, W2) \<Rightarrow>
               is_ClientClosed r2 \<and> assert_no_further_request (net W2)))"

text \<open>
  The eight threads of the scope, and what the test finds when all of them have returned, as
  a predicate of the state they have reached: every \<^verbatim>\<open>expect\<close> held and the server has recorded
  eight requests.
\<close>

definition scope_of_eight :: "Task IncidentClient \<Rightarrow> IncidentRequest \<Rightarrow> (StubServer, 'e) Sharing" where
  "scope_of_eight client request =
     sharing client (stub_start [(200, CREATED)]) 0 (replicate 8 \<lparr>ca_request = request, ca_routed = False\<rparr>)"

definition the_client_is_shareable_across_threads :: "(StubServer, 'e) Sharing \<Rightarrow> bool" where
  "the_client_is_shareable_across_threads S \<longleftrightarrow>
     list_all (\<lambda>p. case p of Returned (Inr _) \<Rightarrow> True | _ \<Rightarrow> False) (sh_points S) \<and>
     next_requests 8 (sh_net S) \<noteq> None"

subsection \<open>The stub at work\<close>

definition stub_client :: "rstring \<Rightarrow> rstring option \<Rightarrow> Task IncidentClient" where
  "stub_client url skey =
     \<lparr>inner = \<lparr>in_service_key = skey, transport = with_endpoint (lit ''api-key'') url,
               interrupt = interrupt_new, retry_delays = FAST_RETRIES\<rparr>,
      dispatcher = shared_new QUEUE_CAPACITY 0, closed = False\<rparr>"

lemma client_for_built:
  "client_for url None = Inr (stub_client url None)"
  "\<not> is_blank k \<Longrightarrow> client_for url (Some k) = Inr (stub_client url (Some k))"
  by (simp_all add: client_for_def stub_client_def client_build_def accessors is_whitespace_def)

definition first_request :: IncidentRequest where
  "first_request =
     \<lparr>rq_service_key = None, rq_title = lit ''Checkout latency'', rq_source = lit ''checkout-api'',
      rq_severity = High, rq_priority = 1, rq_src_timestamp = 1700000000000, rq_component = None, rq_group = None,
      rq_incident_type = None, rq_details = None\<rparr>"

definition second_request :: IncidentRequest where
  "second_request =
     \<lparr>rq_service_key = Some (lit ''request-service-key''), rq_title = lit ''title'', rq_source = lit ''source'',
      rq_severity = Low, rq_priority = 1, rq_src_timestamp = 1700000000000, rq_component = None, rq_group = None,
      rq_incident_type = None, rq_details = None\<rparr>"

lemma test_request_built: "test_request = Inr first_request"
  unfolding test_request_def
  by (simp add: build_eq_Inr problems_Nil_iff first_request_def requested_def effective_timestamp_def accessors
      literals is_whitespace_def MAX_SOURCE_LENGTH_def)

lemma keyed_request_built: "keyed_request = Inr second_request"
  unfolding keyed_request_def
  by (simp add: build_eq_Inr problems_Nil_iff second_request_def requested_def effective_timestamp_def accessors
      literals is_whitespace_def MAX_SOURCE_LENGTH_def now_millis_def i64_try_from_def)

lemma given_built [simp]: "given (Inr c) (Inr r) test = test c r"
  by (simp add: given_def)

lemma created_read:
  "read_object CREATED =
     Some [(lit ''success'', JBool True), (lit ''code'', JInt 200), (lit ''message'', JStr (lit ''created'')),
       (lit ''data'', JStr (lit ''INC-42''))]"
  by code_simp

lemma unauthorized_read:
  "read_object UNAUTHORIZED = Some [(lit ''success'', JBool False), (lit ''message'', JStr (lit ''invalid api key''))]"
  by code_simp


definition created_response :: IncidentResponse where
  "created_response = response_new True 200 (Some (lit ''created'')) (Some (lit ''INC-42''))"

lemma created_answer:
  assumes "json_library J"
  shows "answered J 200 CREATED = Inr created_response"
  using json_library.envelope [OF assms created_read]
  by (simp add: answered_def created_response_def CREATED_def literals is_whitespace_def i64_try_from_def i32_try_from_def)

lemma unauthorized_answer:
  assumes "json_library J"
  shows "answered J 401 UNAUTHORIZED =
    Inl (Delivery (lit ''Oppex returned HTTP '' @ show_int 401 @ lit '': '' @ lit ''invalid api key'') 401 False None)"
proof -
  let ?ms = "[(lit ''success'', JBool False), (lit ''message'', JStr (lit ''invalid api key''))]"
  have "distinct (map fst ?ms)" "list_all (\<lambda>m. ordinary (snd m)) ?ms"
    "map_of ?ms (lit ''success'') = Some (JBool False)" "map_of ?ms (lit ''message'') = Some (JStr (lit ''invalid api key''))"
    by (simp_all add: literals)
  then obtain v get where "from_str J UNAUTHORIZED = Inr v" "as_object J v = Some get"
    "Option.bind (get (lit ''success'')) (as_bool J) = Some False"
    "Option.bind (get (lit ''message'')) (as_str J) = Some (lit ''invalid api key'')"
    using json_library.members [OF assms unauthorized_read] by metis
  moreover have "\<not> is_blank UNAUTHORIZED" "\<not> is_blank (lit ''invalid api key'')"
    by (simp_all add: UNAUTHORIZED_def is_whitespace_def)
  ultimately show ?thesis
    by (simp add: answered_def status_failure_def parse_response_def response_new_def accessors delivery_def
        is_retryable_status_def)
qed

lemma unavailable_answer:
  "answered J 503 [] = Inl (Delivery (lit ''Oppex returned HTTP '' @ show_int 503) 503 True None)"
  by (simp add: answered_def status_failure_def parse_response_blank response_new_def accessors delivery_def
      is_retryable_status_def)

lemma ascii_text: "list_all (\<lambda>c. c < 128) s \<Longrightarrow> list_all scalar s \<and> length (utf8 s) = length s"
  by (simp add: utf8_ascii list_all_iff) (force simp: scalar_def)

lemma test_answers:
  "list_all scalar CREATED" "list_all scalar UNAUTHORIZED"
  "length (utf8 CREATED) \<le> MAX_RESPONSE_BYTES" "length (utf8 UNAUTHORIZED) \<le> MAX_RESPONSE_BYTES"
  using ascii_text [of CREATED] ascii_text [of UNAUTHORIZED]
  by (simp_all add: CREATED_def UNAUTHORIZED_def MAX_RESPONSE_BYTES_def literals)

lemma test_servers_ready:
  "ready (stub_start [(200, CREATED)])" "ready (stub_start [(503, []), (503, []), (200, CREATED)])"
  "ready (stub_start [(401, UNAUTHORIZED)])"
  using test_answers by (simp_all add: ready_def stub_start_def MAX_RESPONSE_BYTES_def utf8_def)

lemma test_payloads_sendable:
  assumes "json_library J"
  shows "sendable (http_request (with_endpoint (lit ''api-key'') url)
      (serialize_request J first_request (Some (lit ''client-service-key''))))"
    "sendable (http_request (with_endpoint (lit ''api-key'') url)
      (serialize_request J first_request (Some (lit ''service-key''))))"
    "sendable (http_request (with_endpoint (lit ''api-key'') url) (serialize_request J first_request None))"
    "sendable (http_request (with_endpoint (lit ''api-key'') url)
      (serialize_request J second_request (Some (lit ''request-service-key''))))"
proof -
  have key: "head_line (header_text (lit ''X-API-KEY'', api_key (with_endpoint (lit ''api-key'') url)))"
    by (simp add: with_endpoint_def api_key_line)
  show "sendable (http_request (with_endpoint (lit ''api-key'') url)
      (serialize_request J first_request (Some (lit ''client-service-key''))))"
    "sendable (http_request (with_endpoint (lit ''api-key'') url)
      (serialize_request J first_request (Some (lit ''service-key''))))"
    "sendable (http_request (with_endpoint (lit ''api-key'') url) (serialize_request J first_request None))"
    "sendable (http_request (with_endpoint (lit ''api-key'') url)
      (serialize_request J second_request (Some (lit ''request-service-key''))))"
    unfolding json_library.serializes [OF assms]
    by (rule sendable_request [OF _ _ key];
        simp add: payload_eval first_request_def second_request_def literals scalar_def)+
qed

text \<open>A delivery to a server that answers with \<open>CREATED\<close>, and what it finds in the payload.\<close>

lemma stub_attempt:
  assumes "http_agent H" and "sendable (http_request t p)" and "ready (net W)" and "current (net W) = (status, body)"
    and "length (utf8 body) \<le> MAX_RESPONSE_BYTES"
  shows "\<exists>r W1. records (http_request t p) r \<and> send_in J (stub_net H) t p W = (answered J status body, W1) \<and>
    net W1 = after_turn r (net W) \<and> signal_at W1 = signal_at W"
proof -
  have "exchange (stub_net H) = stub_exchange H" by (simp add: stub_net_def)
  from http_agent.attempt_answered [where J = J, OF assms(1) this assms(2-5)] show ?thesis by fastforce
qed

lemma deliver_created:
  assumes "json_library J" and "http_agent H"
    and "sendable (http_request (transport inn) (serialize_request J request (option_or (service_key request) key)))"
  shows "\<exists>r W. deliver J (stub_net H) inn request key (serving_world [(200, CREATED)]) = (Inr created_response, W) \<and>
    requests (net W) = [r] \<and> recorded_incident (transport inn) request (option_or (service_key request) key) r"
proof -
  let ?key = "option_or (service_key request) key"
  have "ready (net (serving_world [(200, CREATED)]))" "current (net (serving_world [(200, CREATED)])) = (200, CREATED)"
    using test_servers_ready(1) by (simp_all add: stub_world_def stub_start_def current_def)
  from stub_attempt [where J = J, OF assms(2,3) this test_answers(3)] obtain r W where
    r: "records (http_request (transport inn) (serialize_request J request ?key)) r"
    and send: "send_in J (stub_net H) (transport inn) (serialize_request J request ?key) (serving_world [(200, CREATED)]) =
      (Inr created_response, W)" and "net W = after_turn r (net (serving_world [(200, CREATED)]))"
    unfolding created_answer [OF assms(1)] by blast
  then have "requests (net W) = [r]" by (simp add: after_turn_def stub_world_def stub_start_def)
  moreover have "deliver J (stub_net H) inn request key (serving_world [(200, CREATED)]) = (Inr created_response, W)"
    by (simp add: deliver_def execute_with_retry_def Let_def) (rule retry_loop_Ok, rule send)
  ultimately show ?thesis using records_incident [OF json_library.quoting [OF assms(1)] r] by blast
qed

lemma recorded_payload:
  assumes "json_library J" and "recorded_incident t request key r"
    and "list_all (\<lambda>m. ordinary (snd m)) (wire_members request key)"
  shows "\<exists>v. payload J r = Some v \<and>
    (\<forall>name x. map_of (wire_members request key) name = Some (JStr x) \<longrightarrow> member_str J v name = Some x) \<and>
    (\<forall>name i. map_of (wire_members request key) name = Some (JInt i) \<longrightarrow> member_int J v name = i64_try_from i) \<and>
    (\<forall>name. map_of (wire_members request key) name = None \<longrightarrow> member J v name = None)"
proof -
  have "read_object (rr_body r) = Some (wire_members request key)" using assms(2) by (simp add: recorded_incident_def)
  from json_library.members [OF assms(1) this wire_members_distinct assms(3)] show ?thesis
    by (auto simp: payload_def member_def)
qed

lemma test_members_ordinary:
  "list_all (\<lambda>m. ordinary (snd m)) (wire_members first_request key)"
  "list_all (\<lambda>m. ordinary (snd m)) (wire_members second_request key)"
  by (rule wire_members_ordinary; simp add: first_request_def second_request_def i64_try_from_def)+

lemma first_request_key: "service_key first_request = None"
  by (simp add: first_request_def service_key_def)

lemma second_request_key: "service_key second_request = Some (lit ''request-service-key'')"
  by (simp add: second_request_def service_key_def)

lemma stub_checks:
  "post_checks (stub_client url (Some k)) request = Inr ()"
  "service_key request = None \<Longrightarrow> routing_checks (stub_client url skey) request = Inr ()"
  by (simp_all add: post_checks_def routing_checks_def ensure_open_def require_service_key_def
      require_service_routable_def stub_client_def)

lemma stub_inner [simp]:
  "in_service_key (inner (stub_client url skey)) = skey"
  "transport (inner (stub_client url skey)) = with_endpoint (lit ''api-key'') url"
  "interrupt (inner (stub_client url skey)) = interrupt_new" "retry_delays (inner (stub_client url skey)) = FAST_RETRIES"
  "dispatcher (stub_client url skey) = shared_new QUEUE_CAPACITY 0" "\<not> closed (stub_client url skey)"
  by (simp_all add: stub_client_def)

lemmas test_start = client_for_built test_request_built keyed_request_built is_whitespace_def post_def
  post_with_service_routing_def stub_checks

lemma next_payload_one: "requests S = [r] \<Longrightarrow> next_payload J S = payload J r"
  by (simp add: next_payload_def next_request_def)

text \<open>The two deliveries that differ in the service key only.\<close>

lemma keyed_delivery:
  assumes "json_library J" and "http_agent H"
    and "sendable (http_request (transport inn) (serialize_request J request (option_or (service_key request) key)))"
    and "option_or (service_key request) key = Some k" and "request \<in> {first_request, second_request}"
  shows "\<exists>W v. deliver J (stub_net H) inn request key (serving_world [(200, CREATED)]) = (Inr created_response, W) \<and>
    next_payload J (net W) = Some v \<and> member_str J v (lit ''serviceKey'') = Some k"
proof -
  obtain r W where d: "deliver J (stub_net H) inn request key (serving_world [(200, CREATED)]) = (Inr created_response, W)"
    "requests (net W) = [r]" "recorded_incident (transport inn) request (Some k) r"
    using deliver_created [OF assms(1-3)] assms(4) by auto
  have "list_all (\<lambda>m. ordinary (snd m)) (wire_members request (Some k))"
    using assms(5) test_members_ordinary by auto
  moreover have "map_of (wire_members request (Some k)) (lit ''serviceKey'') = Some (JStr k)"
    by (simp add: wire_member_lookup)
  ultimately show ?thesis using recorded_payload [OF assms(1) d(3)] d(1,2) by (fastforce simp: next_payload_one)
qed

lemma routed_delivery:
  assumes "json_library J" and "http_agent H"
    and "sendable (http_request (transport inn) (serialize_request J first_request (option_or (service_key first_request) None)))"
  shows "\<exists>W v. deliver J (stub_net H) inn first_request None (serving_world [(200, CREATED)]) = (Inr created_response, W) \<and>
    next_payload J (net W) = Some v \<and> member J v (lit ''serviceKey'') = None"
proof -
  obtain r W where d: "deliver J (stub_net H) inn first_request None (serving_world [(200, CREATED)]) =
      (Inr created_response, W)" "requests (net W) = [r]" "recorded_incident (transport inn) first_request None r"
    using deliver_created [OF assms] by (auto simp: first_request_key)
  have "map_of (wire_members first_request None) (lit ''serviceKey'') = None" by (simp add: wire_member_lookup)
  with recorded_payload [OF assms(1) d(3) test_members_ordinary(1)] d(1,2) show ?thesis
    by (auto simp: next_payload_one)
qed

lemma sending_tests_pass:
  assumes "json_library J" and "http_agent H"
  shows "post_sends_the_agreed_payload_and_header J H url" "a_request_service_key_overrides_the_clients J H url"
    "service_routing_omits_the_service_key J H url"
proof -
  note sendable = test_payloads_sendable [OF assms(1), of url]
  obtain r W where first: "deliver J (stub_net H) (inner (stub_client url (Some (lit ''client-service-key'')))) first_request
      (Some (lit ''client-service-key'')) (serving_world [(200, CREATED)]) = (Inr created_response, W)"
    "requests (net W) = [r]"
    "recorded_incident (with_endpoint (lit ''api-key'') url) first_request (Some (lit ''client-service-key'')) r"
    using deliver_created [OF assms, of "inner (stub_client url (Some (lit ''client-service-key'')))" first_request
        "Some (lit ''client-service-key'')"] sendable(1) by (auto simp: first_request_key)
  obtain v where v: "payload J r = Some v"
    "\<And>name x. map_of (wire_members first_request (Some (lit ''client-service-key''))) name = Some (JStr x) \<Longrightarrow>
      member_str J v name = Some x"
    "\<And>name i. map_of (wire_members first_request (Some (lit ''client-service-key''))) name = Some (JInt i) \<Longrightarrow>
      member_int J v name = i64_try_from i"
    "\<And>name. map_of (wire_members first_request (Some (lit ''client-service-key''))) name = None \<Longrightarrow> member J v name = None"
    using recorded_payload [OF assms(1) first(3) test_members_ordinary(1)] by blast
  have "trim (lit ''api-key'') = lit ''api-key''" by (simp add: trim_def literals is_whitespace_def)
  then show "post_sends_the_agreed_payload_and_header J H url"
    using first v(1)
      v(2) [of "lit ''serviceKey''" "lit ''client-service-key''"] v(2) [of "lit ''title''" "lit ''Checkout latency''"]
      v(3) [of "lit ''severity''" 4] v(3) [of "lit ''priority''" 1] v(3) [of "lit ''srcTimestamp''" 1700000000000]
      v(4) [of "lit ''component''"]
    by (simp add: post_sends_the_agreed_payload_and_header_def test_start created_response_def response_new_def
        is_successful_def incident_id_def next_request_def recorded_incident_def with_endpoint_def)
      (simp add: wire_member_lookup first_request_def i64_try_from_def)
  show "a_request_service_key_overrides_the_clients J H url"
    using keyed_delivery [OF assms, of "inner (stub_client url (Some (lit ''client-service-key'')))" second_request
        "Some (lit ''client-service-key'')" "lit ''request-service-key''"] sendable(4)
    by (auto simp: a_request_service_key_overrides_the_clients_def test_start second_request_key)
  have "sendable (http_request (transport (inner (stub_client url (Some (lit ''client-service-key'')))))
      (serialize_request J first_request (option_or (service_key first_request) None)))"
    using sendable(3) by (simp add: first_request_key)
  from routed_delivery [OF assms this] show "service_routing_omits_the_service_key J H url"
    by (auto simp: service_routing_omits_the_service_key_def test_start first_request_key)
qed

text \<open>The tests in which a call is refused before anything is sent.\<close>

lemma refusing_tests_pass:
  "build_rejects_a_missing_or_blank_api_key" "post_requires_a_service_key_somewhere J H url"
  "service_routing_refuses_a_request_service_key J H url" "every_post_fails_on_a_closed_client J H url"
  subgoal
    by (simp add: build_rejects_a_missing_or_blank_api_key_def is_InvalidRequest_def client_build_def accessors
        is_whitespace_def lit_Nil)
  subgoal
    by (simp add: post_requires_a_service_key_somewhere_def test_start post_checks_def ensure_open_def
        require_service_key_def first_request_key is_InvalidRequest_def invalid_def assert_no_further_request_def stub_world_def
        stub_start_def)
  subgoal
    by (simp add: service_routing_refuses_a_request_service_key_def test_start routing_checks_def ensure_open_def
        require_service_routable_def second_request_key is_InvalidRequest_def invalid_def assert_no_further_request_def
        stub_world_def stub_start_def)
  subgoal
    by (simp add: every_post_fails_on_a_closed_client_def test_start post_async_def post_checks_def routing_checks_def
        ensure_open_def close_alone_returns is_ClientClosed_def assert_no_further_request_def stub_world_def
        stub_start_def)
  done

text \<open>The tests of the retry loop.\<close>

lemma no_signal_wait:
  "signal_at W = None \<Longrightarrow> wait_in interrupt_new d W = (False, W\<lparr>clock := clock W + d + wake_lag W + 1\<rparr>)"
  by (simp add: wait_in_cases interrupt_new_def signalled_by_def)

lemma refused_attempt:
  assumes "http_agent H" and "sendable (http_request t p)" and "ready (net W)" and "current (net W) = (503, [])"
    and "signal_at W = None" and "k < length ds"
  shows "\<exists>r W2. retry_loop ds (wait_in interrupt_new) (send_in J (stub_net H) t p) k W =
      retry_loop ds (wait_in interrupt_new) (send_in J (stub_net H) t p) (Suc k) W2 \<and>
    net W2 = after_turn r (net W) \<and> signal_at W2 = None"
proof -
  obtain r W1 where send: "send_in J (stub_net H) t p W = (answered J 503 [], W1)"
    and W1: "net W1 = after_turn r (net W)" "signal_at W1 = signal_at W"
    using stub_attempt [where J = J, OF assms(1-4)] by (auto simp: MAX_RESPONSE_BYTES_def utf8_def)
  have "is_retryable (Delivery (lit ''Oppex returned HTTP '' @ show_int 503) 503 True None :: 'a IncidentError)" by simp
  from retry_loop_again [where operation = "send_in J (stub_net H) t p" and wt = "wait_in interrupt_new",
      OF send [unfolded unavailable_answer] this assms(6) no_signal_wait [of W1 "ds ! k"]] W1 assms(5)
  show ?thesis by (intro exI [of _ r] exI [of _ "W1\<lparr>clock := clock W1 + ds ! k + wake_lag W1 + 1\<rparr>"]) simp
qed

lemma retrying_test_passes:
  assumes "json_library J" and "http_agent H"
  shows "post_retries_a_retryable_status J H url"
proof -
  let ?t = "with_endpoint (lit ''api-key'') url" and ?W = "serving_world [(503, []), (503, []), (200, CREATED)]"
  let ?p = "serialize_request J first_request (Some (lit ''service-key''))"
  let ?loop = "retry_loop FAST_RETRIES (wait_in interrupt_new) (send_in J (stub_net H) ?t ?p)"
  note attempt = refused_attempt [where J = J and t = ?t and p = ?p and ds = FAST_RETRIES, OF assms(2)
      test_payloads_sendable(2) [OF assms(1)]]
  have W: "ready (net ?W)" "current (net ?W) = (503, [])" "signal_at ?W = None"
    using test_servers_ready(2) by (simp_all add: stub_world_def stub_start_def current_def)
  obtain r1 W1 where one: "?loop 0 ?W = ?loop 1 W1" "net W1 = after_turn r1 (net ?W)" "signal_at W1 = None"
    using attempt [OF W, of 0] by (auto simp: FAST_RETRIES_def)
  have "ready (net W1)" "current (net W1) = (503, [])"
    using one(2) W(1) by (simp, simp add: after_turn_def stub_world_def stub_start_def current_def)
  from attempt [OF this one(3), of 1] obtain r2 W2 where
    two: "?loop 1 W1 = ?loop 2 W2" "net W2 = after_turn r2 (net W1)" "signal_at W2 = None"
    by (auto simp: FAST_RETRIES_def numeral_2_eq_2)
  have "ready (net W2)" "current (net W2) = (200, CREATED)"
    using one(2) two(2) W(1) by (simp, simp add: after_turn_def stub_world_def stub_start_def current_def)
  from stub_attempt [where J = J, OF assms(2) test_payloads_sendable(2) [OF assms(1)] this test_answers(3)]
  obtain r3 W3 where send: "send_in J (stub_net H) ?t ?p W2 = (Inr created_response, W3)"
    and three: "net W3 = after_turn r3 (net W2)"
    unfolding created_answer [OF assms(1)] by blast
  have "?loop 2 W2 = (Inr created_response, W3)" by (rule retry_loop_Ok, rule send)
  then have "deliver J (stub_net H) (inner (stub_client url (Some (lit ''service-key'')))) first_request
      (Some (lit ''service-key'')) ?W = (Inr created_response, W3)"
    using one(1) two(1) by (simp add: deliver_def execute_with_retry_def Let_def first_request_key)
  moreover have "requests (net W3) = [r1, r2, r3]"
    using one(2) two(2) three by (simp add: after_turn_def stub_world_def stub_start_def)
  ultimately show ?thesis
    by (simp add: post_retries_a_retryable_status_def test_start created_response_def response_new_def is_successful_def
        next_request_def numeral_3_eq_3 assert_no_further_request_def)
qed

lemma failing_test_passes:
  assumes "json_library J" and "http_agent H"
  shows "post_fails_immediately_on_a_non_retryable_status J H url"
proof -
  let ?t = "with_endpoint (lit ''api-key'') url" and ?W = "serving_world [(401, UNAUTHORIZED)]"
  let ?p = "serialize_request J first_request (Some (lit ''service-key''))"
  let ?f = "Delivery (lit ''Oppex returned HTTP '' @ show_int 401 @ lit '': '' @ lit ''invalid api key'') 401 False None"
  have "ready (net ?W)" "current (net ?W) = (401, UNAUTHORIZED)"
    using test_servers_ready(3) by (simp_all add: stub_world_def stub_start_def current_def)
  from stub_attempt [where J = J, OF assms(2) test_payloads_sendable(2) [OF assms(1)] this test_answers(4)]
  obtain r W where send: "send_in J (stub_net H) ?t ?p ?W = (Inl ?f, W)" and W: "net W = after_turn r (net ?W)"
    unfolding unauthorized_answer [OF assms(1)] by blast
  have "retry_loop FAST_RETRIES (wait_in interrupt_new) (send_in J (stub_net H) ?t ?p) 0 ?W =
      (Inl (with_attempt_count ?f 1), W)"
    using retry_loop_final [where operation = "send_in J (stub_net H) ?t ?p", OF send, of FAST_RETRIES 0] by simp
  then have "deliver J (stub_net H) (inner (stub_client url (Some (lit ''service-key'')))) first_request
      (Some (lit ''service-key'')) ?W = (Inl (with_attempt_count ?f 1), W)"
    by (simp add: deliver_def execute_with_retry_def Let_def first_request_key)
  moreover have "requests (net W) = [r]" using W by (simp add: after_turn_def stub_world_def stub_start_def)
  ultimately show ?thesis
    by (simp add: post_fails_immediately_on_a_non_retryable_status_def test_start next_request_def
        assert_no_further_request_def NO_STATUS_CODE_def)
      (rule str_containsI [of "lit ''Oppex returned HTTP '' @ show_int 401 @ lit '': ''" _ "[]", simplified])
qed

lemma async_test_passes:
  assumes "json_library J" and "http_agent H"
  shows "post_async_delivers_and_validates_on_the_calling_thread J H url"
proof -
  let ?c = "stub_client url (Some (lit ''service-key''))"
  obtain W v where "deliver J (stub_net H) (inner ?c) first_request (Some (lit ''service-key'')) (serving_world [(200, CREATED)]) =
      (Inr created_response, W)" "next_payload J (net W) = Some v"
    "member_str J v (lit ''serviceKey'') = Some (lit ''service-key'')"
    using keyed_delivery [OF assms, of "inner ?c" first_request "Some (lit ''service-key'')" "lit ''service-key''"]
      test_payloads_sendable(2) [OF assms(1), of url] by (auto simp: first_request_key)
  then show ?thesis
    by (simp add: post_async_delivers_and_validates_on_the_calling_thread_def test_start post_async_def
        client_submit_def submit_def shared_new_def QUEUE_CAPACITY_def run_task_def)
      (simp add: post_checks_def ensure_open_def require_service_key_def is_InvalidRequest_def invalid_def
        first_request_key)
qed

subsection \<open>The shared client\<close>

lemma one_exchange:
  assumes "sharing_inv J c calls ls S" and "i < length calls" and "sh_points S ! i = Returned r" and "asked i ls = [q]"
  shows "exchanges (outcomes i ls) = 1"
proof -
  have "refused c (calls ! i) (outcomes i ls) (asked i ls) (Returned r) \<or>
      faithful J c (calls ! i) (outcomes i ls) (asked i ls) (Returned r)"
    using assms(1-3) unfolding sharing_inv_def by metis
  then show ?thesis
  proof
    assume "faithful J c (calls ! i) (outcomes i ls) (asked i ls) (Returned r)"
    then have "length (asked i ls) = exchanges (outcomes i ls)" by (simp add: faithful_def)
    with assms(4) show ?thesis by simp
  qed (use assms(4) in \<open>simp add: refused_def\<close>)
qed

lemma next_requests_recorded: "next_requests n S \<noteq> None \<longleftrightarrow> n \<le> length (requests S)"
proof (induction n arbitrary: S)
  case (Suc n)
  show ?case by (cases "requests S") (use Suc in \<open>simp_all add: next_request_def\<close>)
qed simp

text \<open>The server while it answers every connection with \<open>CREATED\<close>.\<close>

definition creating :: "StubServer \<Rightarrow> bool" where
  "creating S \<longleftrightarrow> ready S \<and> ss_responses S = [(200, CREATED)]"

lemma creating_send:
  assumes "json_library J" and "http_agent H" and "sendable (http_request t p)" and "creating S"
  shows "\<exists>S'. send J (stub_exchange H) t p S = (Inr created_response, S') \<and> creating S' \<and>
    length (requests S') = Suc (length (requests S))"
proof -
  have "ready (net (stub_world S))" "current (net (stub_world S)) = (200, CREATED)"
    using assms(4) by (simp_all add: creating_def current_def stub_world_def)
  from stub_attempt [where J = J, OF assms(2,3) this test_answers(3)] obtain r W1 where
    "send_in J (stub_net H) t p (stub_world S) = (Inr created_response, W1)" "net W1 = after_turn r S"
    unfolding created_answer [OF assms(1)] by (auto simp: stub_world_def)
  moreover have "creating (after_turn r S)" using assms(4) by (simp add: creating_def) (simp add: after_turn_def)
  ultimately show ?thesis
    by (auto simp: send_in_def stub_net_def stub_world_def after_turn_def split: prod.splits)
qed

lemma sharing_test_passes:
  fixes J :: "('v, 'e) serde_json" and S :: "(StubServer, 'e) Sharing"
  assumes "json_library J" and "http_agent H"
    and run: "run (sstep J (stub_exchange H))
      (scope_of_eight (stub_client url (Some (lit ''service-key''))) first_request) ls S"
    and "Swap \<notin> set ls" and "list_all is_Returned (sh_points S)"
  shows "the_client_is_shareable_across_threads S"
proof -
  let ?c = "stub_client url (Some (lit ''service-key''))"
  let ?calls = "replicate 8 \<lparr>ca_request = first_request, ca_routed = False\<rparr>"
  note run = run [unfolded scope_of_eight_def]
  have checks: "list_all (\<lambda>call. call_checks ?c call = (Inr () :: (unit, 'e IncidentError) result)) ?calls"
    by (simp add: list_all_iff call_checks_def stub_checks)
  have start: "creating (stub_start [(200, CREATED)])"
    using test_servers_ready(1) by (simp add: creating_def) (simp add: stub_start_def)
  have send: "\<exists>v m'. send J (stub_exchange H) (transport (inner ?c)) (call_payload J (inner ?c) call) m = (Inr v, m') \<and>
      creating m' \<and> length (requests m') = Suc (length (requests m))" if "call \<in> set ?calls" "creating m" for call m
    using creating_send [OF assms(1,2) test_payloads_sendable(2) [OF assms(1), of url] that(2)] that(1)
    by (auto simp: call_payload_def first_request_key)
  have served: "(\<exists>response. sh_points S ! i = Returned (Inr response)) \<and> asked i ls = [request_of J ?c (?calls ! i)]"
    if "i < length ?calls" for i
    by (rule shared_posts_served_while [where good = creating, OF _ start checks run assms(4,5) that]) (use send in blast)
  have len: "length (sh_points S) = 8" using shared_run [OF run] by (simp add: sharing_inv_def)
  have "length (requests (sh_net S)) = length (requests (stub_start [(200, CREATED)])) +
      (\<Sum>i<length ?calls. exchanges (outcomes i ls))"
    by (rule net_counts [where good = creating and counter = "\<lambda>m. length (requests m)", OF _ start run]) (rule send)
  also have "(\<Sum>i<length ?calls. exchanges (outcomes i ls)) = (\<Sum>i<length ?calls. 1)"
    by (rule sum.cong) (use one_exchange [OF shared_run [OF run]] served in fastforce)+
  finally have "next_requests 8 (sh_net S) \<noteq> None" unfolding next_requests_recorded by (simp add: stub_start_def)
  moreover have "list_all (\<lambda>p. case p of Returned (Inr _) \<Rightarrow> True | _ \<Rightarrow> False) (sh_points S)"
    unfolding list_all_length len using served by fastforce
  ultimately show ?thesis by (simp add: the_client_is_shareable_across_threads_def)
qed

text \<open>
  The model passes the client's own tests, each played from the builders over the retry loop
  and the bytes of the connection to the server and back, with any \<^verbatim>\<open>serde_json\<close> and any agent
  that behave as documented; the one for sharing a client holds however the threads are scheduled.
\<close>

lemma client_tests_pass:
  fixes J :: "('v, 'e) serde_json" and H :: "'e Http"
  assumes "json_library J" and "http_agent H"
  shows "build_rejects_a_missing_or_blank_api_key" "post_sends_the_agreed_payload_and_header J H url"
    "a_request_service_key_overrides_the_clients J H url" "post_requires_a_service_key_somewhere J H url"
    "service_routing_omits_the_service_key J H url" "service_routing_refuses_a_request_service_key J H url"
    "post_retries_a_retryable_status J H url" "post_fails_immediately_on_a_non_retryable_status J H url"
    "post_async_delivers_and_validates_on_the_calling_thread J H url" "every_post_fails_on_a_closed_client J H url"
    "given (client_for url (Some (lit ''service-key''))) test_request (\<lambda>client request.
       \<forall>ls (S :: (StubServer, 'e) Sharing). run (sstep J (stub_exchange H)) (scope_of_eight client request) ls S \<and>
         Swap \<notin> set ls \<and> list_all is_Returned (sh_points S) \<longrightarrow> the_client_is_shareable_across_threads S)"
  using sharing_test_passes [OF assms, of url]
  by (auto simp: sending_tests_pass [OF assms] refusing_tests_pass retrying_test_passes [OF assms]
      failing_test_passes [OF assms] async_test_passes [OF assms] client_for_built test_request_built is_whitespace_def)

end
