(* ===== verification/Public_Api_Tests.thy ===== *)
theory Public_Api_Tests
  imports Client_Tests
begin

text \<open>
  \<^verbatim>\<open>src/rust/tests/public_api.rs\<close>: the tests a consumer of the crate could write, one
  predicate per test under its name (a prefix where a unit test has the same). The system
  clock is an argument where a request takes its time from it.
\<close>

definition public_client :: "(Task IncidentClient, unit IncidentError) result" where
  "public_client =
     client_build None 0 (with_client_service_key (lit ''external-consumer-service-key'') (
       with_api_key (lit ''external-consumer-api-key'') client_builder))"

definition the_endpoint_is_the_agreed_one :: bool where
  "the_endpoint_is_the_agreed_one \<longleftrightarrow> lit ''https://api.oppex.ai/api/v1/incident/post'' = DEFAULT_ENDPOINT"

definition severity_maps_to_the_oppex_scale :: bool where
  "severity_maps_to_the_oppex_scale \<longleftrightarrow>
     3 = severity_value Medium \<and> from_value 5 = (Inr Critical :: (Severity, unit IncidentError) result)"

definition a_valid_request_builds :: "int \<Rightarrow> bool" where
  "a_valid_request_builds now =
     (case try_build now (with_severity Medium (with_source (lit ''cargo-test'') (
        with_title (lit ''External consumer test'') request_builder))) of
        Inl _ \<Rightarrow> False
      | Inr request \<Rightarrow> Medium = severity request \<and> 1 = priority request)"

definition an_invalid_request_is_rejected_at_the_call_site :: "int \<Rightarrow> bool" where
  "an_invalid_request_is_rejected_at_the_call_site now =
     is_InvalidRequest (try_build now (with_severity Medium (with_source (lit ''cargo-test'') request_builder)))"

definition a_blank_api_key_is_rejected :: bool where
  "a_blank_api_key_is_rejected =
     is_InvalidRequest (client_build None 0 (with_api_key (lit ''  '') client_builder) ::
       (Task IncidentClient, unit IncidentError) result)"

definition public_service_routing_refuses_a_request_service_key ::
  "('v, 'e) serde_json \<Rightarrow> ('n, 'e) Net \<Rightarrow> 'n World \<Rightarrow> int \<Rightarrow> bool" where
  "public_service_routing_refuses_a_request_service_key J N W now =
     given public_client
       (try_build now (with_service_key (lit ''external-consumer-service-key'') (with_severity Low (
          with_source (lit ''cargo-test'') (with_title (lit ''Service routing test'') request_builder)))))
       (\<lambda>client request. is_InvalidRequest (fst (post_with_service_routing J N client request W)))"

definition a_closed_client_refuses_every_post ::
  "('v, 'e) serde_json \<Rightarrow> ('n, 'e) Net \<Rightarrow> 'n World \<Rightarrow> int \<Rightarrow> bool" where
  "a_closed_client_refuses_every_post J N W now =
     given public_client
       (try_build now (with_severity Low (with_source (lit ''cargo-test'') (
          with_title (lit ''Closed client test'') request_builder))))
       (\<lambda>client request.
          let client = close_alone 0 client
          in is_ClientClosed (fst (post J N client request W)) \<and>
             is_ClientClosed (fst (post_async 0 0 request client) :: (unit, unit IncidentError) result))"

lemma public_client_built:
  "public_client = Inr \<lparr>inner = \<lparr>in_service_key = Some (lit ''external-consumer-service-key''),
       transport = transport_new None (lit ''external-consumer-api-key''), interrupt = interrupt_new,
       retry_delays = DEFAULT_RETRY_DELAYS\<rparr>, dispatcher = shared_new QUEUE_CAPACITY 0, closed = False\<rparr>"
  by (simp add: public_client_def client_build_def accessors is_whitespace_def)

lemma public_requests_build:
  assumes "0 < now_millis now" and "\<not> is_blank name" and "\<not> is_blank k"
  shows "try_build now (with_severity s (with_source (lit ''cargo-test'') (with_title name request_builder))) =
      Inr (requested now (with_severity s (with_source (lit ''cargo-test'') (with_title name request_builder))))"
    and "try_build now (with_service_key k (with_severity s (with_source (lit ''cargo-test'') (with_title name request_builder)))) =
      Inr (requested now (with_service_key k (with_severity s (with_source (lit ''cargo-test'') (with_title name request_builder)))))"
  using assms
  by (simp_all add: build_eq_Inr problems_Nil_iff effective_timestamp_def accessors literals is_whitespace_def
      MAX_SOURCE_LENGTH_def)

text \<open>
  Every test of the public interface passes on the model, at any wall clock past the epoch;
  those that post depend neither on the network nor on \<^verbatim>\<open>serde_json\<close>, and say nothing to either.
\<close>

lemma public_api_tests_pass:
  assumes "0 < now_millis now"
  shows "the_endpoint_is_the_agreed_one" "severity_maps_to_the_oppex_scale" "a_valid_request_builds now"
    "an_invalid_request_is_rejected_at_the_call_site now" "a_blank_api_key_is_rejected"
    "public_service_routing_refuses_a_request_service_key J N W now" "a_closed_client_refuses_every_post J N W now"
  subgoal by (simp add: the_endpoint_is_the_agreed_one_def DEFAULT_ENDPOINT_def)
  subgoal by (simp add: severity_maps_to_the_oppex_scale_def from_value_def)
  subgoal
    using assms
    by (simp add: a_valid_request_builds_def public_requests_build(1) [where k = "[65]"] is_whitespace_def)
      (simp add: requested_def accessors)
  subgoal
    by (simp add: an_invalid_request_is_rejected_at_the_call_site_def is_InvalidRequest_def build_def
        require_non_blank_def accessors)
  subgoal
    by (simp add: a_blank_api_key_is_rejected_def client_build_def accessors is_InvalidRequest_def is_whitespace_def
        lit_Nil)
  subgoal
    using assms
    by (simp add: public_service_routing_refuses_a_request_service_key_def public_client_built public_requests_build(2)
        is_whitespace_def post_with_service_routing_def routing_checks_def ensure_open_def require_service_routable_def
        is_InvalidRequest_def)
      (simp add: requested_def accessors)
  subgoal
    using assms
    by (simp add: a_closed_client_refuses_every_post_def public_client_built
        public_requests_build(1) [where k = "[65]"] is_whitespace_def post_def post_async_def post_checks_def ensure_open_def
        close_alone_returns is_ClientClosed_def)
  done

end
