(* ===== verification/Dispatcher_Tests.thy ===== *)
theory Dispatcher_Tests
  imports Dispatcher_Progress
begin

text \<open>
  The tests of \<^verbatim>\<open>dispatcher.rs\<close> on the critical sections of the model: each is one schedule of
  the threads it starts, the one its gates enforce where it has gates. A single worker that
  finds its tasks one after the other is \<open>work_off\<close>.
\<close>

function work_off :: "'task State \<Rightarrow> 'task list \<times> 'task State" where
  "work_off s =
     (case work_poll s of
        (Took task, s') \<Rightarrow> (case work_off (work_done s') of (done_tasks, s'') \<Rightarrow> (task # done_tasks, s''))
      | (_, s') \<Rightarrow> ([], s'))"
  by pat_completeness auto
termination
  by (relation "measure (\<lambda>s. length (tasks s))") (auto simp: sections dest!: sym [of "(_, _)"])

declare work_off.simps [simp del]

text \<open>A worker left alone runs the whole queue in order and leaves the counter as it was.\<close>

lemma work_off_all: "work_off s = (tasks s, s\<lparr>tasks := []\<rparr>)"
proof (induction s rule: work_off.induct)
  case (1 s)
  show ?case
  proof (cases "tasks s")
    case Nil
    then show ?thesis
      by (subst work_off.simps) (cases s, auto simp: work_poll_def)
  next
    case (Cons t rest)
    then have poll: "work_poll s = (Took t, s\<lparr>tasks := rest, active := active s + 1\<rparr>)" by (simp add: work_poll_def)
    from "1.IH" [OF poll [symmetric] refl] poll Cons show ?thesis
      by (subst work_off.simps) (simp add: work_done_def)
  qed
qed

abbreviation at_rest :: "'task list \<Rightarrow> (instant \<times> instant \<times> 'task) list" where
  "at_rest \<equiv> map (\<lambda>t. (0, 0, t))"

definition runs_submitted_work :: bool where
  "runs_submitted_work =
     (case submit_all (at_rest [0, 1, 2, 3, 4]) (shared_new 10 0) of (accepted, sh) \<Rightarrow>
        list_all id accepted \<and> sort (fst (work_off (state sh))) = [0, 1, 2, 3, 4 :: nat] \<and>
        map_option fst (dispatcher_close 0 [(0, id), (1, \<lambda>s. snd (work_off s))] (from_secs 5) sh) = Some 0)"

text \<open>The worker is held on the gate, so everything else has to queue.\<close>

definition drops_the_oldest_queued_task_when_full :: bool where
  "drops_the_oldest_queued_task_when_full =
     (case submit 0 0 (lit ''gate'') (shared_new 2 0) of (_, _, sh) \<Rightarrow>
      (case work_poll (state sh) of
         (Took gate, held) \<Rightarrow>
           (case submit_all (at_rest [lit ''oldest'', lit ''middle'', lit ''newest'']) (sh\<lparr>state := held\<rparr>) of (_, sh) \<Rightarrow>
            (case work_off (work_done (state sh)) of (done_tasks, _) \<Rightarrow>
               2 = length done_tasks \<and> lit ''oldest'' \<notin> set done_tasks))
       | _ \<Rightarrow> False))"

definition refuses_work_after_close_and_close_is_idempotent :: bool where
  "refuses_work_after_close_and_close_is_idempotent =
     (case dispatcher_close 0 [(0, id)] (from_secs 1) (shared_new 4 0 :: nat Shared) of
        None \<Rightarrow> False
      | Some (_, sh) \<Rightarrow>
          (case dispatcher_close 0 [] (from_secs 1) sh of
             None \<Rightarrow> False
           | Some (_, again) \<Rightarrow> \<not> fst (submit 0 0 7 again)))"

text \<open>
  The drain wakes after its deadline with the first task still held; when the gate opens, the
  worker finds nothing to do and returns.
\<close>

definition close_gives_up_on_work_that_outlasts_the_drain_timeout :: "duration \<Rightarrow> bool" where
  "close_gives_up_on_work_that_outlasts_the_drain_timeout late =
     (case submit_all (at_rest [lit ''gate'', lit ''counted'']) (shared_new 10 0) of (_, sh) \<Rightarrow>
      (case work_poll (state sh) of
         (Took gate, held) \<Rightarrow>
           (case dispatcher_close 0 [(0, id), (from_millis 100 + 1 + late, id)] (from_millis 100) (sh\<lparr>state := held\<rparr>) of
              None \<Rightarrow> False
            | Some (abandoned, over) \<Rightarrow>
                1 = abandoned \<and> [] = fst (work_off (work_done (state over))) \<and>
                fst (work_poll (work_done (state over))) = Exit)
       | _ \<Rightarrow> False))"

lemma dispatcher_tests_pass:
  "runs_submitted_work" "drops_the_oldest_queued_task_when_full"
  "refuses_work_after_close_and_close_is_idempotent" "close_gives_up_on_work_that_outlasts_the_drain_timeout late"
  subgoal
    by (simp add: runs_submitted_work_def submit_def shared_new_def work_off_all dispatcher_close_def close_begin_def
        drain_turn_def drain_finish_def checked_duration_since_def)
  subgoal
    by (simp add: drops_the_oldest_queued_task_when_full_def submit_def shared_new_def work_poll_def work_off_all
        work_done_def record_drop_def drop_logger_new_def elapsed_def DROP_LOG_INTERVAL_def from_secs_def)
  subgoal
    by (simp add: refuses_work_after_close_and_close_is_idempotent_def dispatcher_close_def close_begin_def
        drain_turn_def drain_finish_def shared_new_def submit_def)
  subgoal
    by (simp add: close_gives_up_on_work_that_outlasts_the_drain_timeout_def submit_def shared_new_def work_poll_def
        dispatcher_close_def close_begin_def drain_turn_def drain_finish_def checked_duration_since_def work_off_all
        work_done_def)
  done

end
