(* ===== verification/Spec2Isabelle.thy ===== *)
theory Spec2Isabelle
  imports Client_Properties Client_Threads Shared_Posts Orderly_Close Smoke_Consumer Public_Api_Tests Dispatcher_Tests
begin

text \<open>
  A verification of the Rust SDK of this repository (\<^verbatim>\<open>src/rust\<close>): a client that posts incidents
  to the Oppex HTTP API, synchronously with retries or asynchronously through a bounded queue
  served by two worker threads.

  \<^bold>\<open>The program.\<close> An application builds an \<^verbatim>\<open>IncidentRequest\<close> (\<^verbatim>\<open>request.rs\<close>, with a \<^verbatim>\<open>Severity\<close>)
  and an \<^verbatim>\<open>IncidentClient\<close> (\<^verbatim>\<open>client.rs\<close>). \<^verbatim>\<open>post\<close> serializes the request (\<^verbatim>\<open>internal/wire.rs\<close>)
  and sends it (\<^verbatim>\<open>internal/transport.rs\<close>, over \<^verbatim>\<open>ureq\<close>) under the retry loop of
  \<^verbatim>\<open>internal/retry.rs\<close>, whose backoff is an interruptible wait (\<^verbatim>\<open>internal/interrupt.rs\<close>);
  the outcome is an \<^verbatim>\<open>IncidentResponse\<close> or an \<^verbatim>\<open>IncidentError\<close>. \<^verbatim>\<open>post_async\<close> checks on the
  calling thread and queues the same delivery with the dispatcher
  (\<^verbatim>\<open>internal/dispatcher.rs\<close>), which drops the oldest task when the queue is full and counts
  drops with \<^verbatim>\<open>internal/drop_logger.rs\<close>. \<^verbatim>\<open>close\<close> flags the client closed, signals the
  interrupt and drains the dispatcher for at most ten seconds.

  \<^bold>\<open>The theories.\<close>

  \<^item> \<open>Prelude\<close>: strings as lists of code points, \<^verbatim>\<open>trim\<close>, the \<^verbatim>\<open>?\<close> operator, machine integers,
    decimal printing, durations and instants (in nanoseconds), and the collections \<open>literals\<close>
    and \<open>accessors\<close> of rewrite rules.
  \<^item> \<open>Incident_Error\<close> (\<^verbatim>\<open>error.rs\<close>), \<open>Severity\<close> (\<^verbatim>\<open>severity.rs\<close>), \<open>Response\<close> (\<^verbatim>\<open>response.rs\<close>),
    \<open>Request\<close> (\<^verbatim>\<open>request.rs\<close>): the data with every constructor, setter and accessor, and
    \<^verbatim>\<open>build\<close> with all its checks in order. Shown: which problem is reported, what holds of
    every built request, and that building is a round trip.
  \<^item> \<open>Json_Reader\<close>: a reader for JSON objects with scalar members, written independently of the
    code as the reference the payload is judged by; it takes one unit of fuel per member, of
    which the length of the text is enough, and what is shown of it is that it returns a result.
    The locale \<open>json_quoting\<close> is what the code relies on of \<^verbatim>\<open>serde_json\<close>'s string quoting; a
    quoting by RFC 8259 interprets it.
  \<^item> \<open>Wire\<close> (\<^verbatim>\<open>wire.rs\<close>): the payload writer with its comma flag, and the response decoder.
    \<^verbatim>\<open>serde_json\<close> is a record argument. Shown: the payload reads back as exactly the agreed
    members and determines the request; a decoding failure never echoes the body. The locale
    \<open>json_library\<close> is all the tests rely on of \<^verbatim>\<open>serde_json\<close>, that it reads what the reference
    reader reads; \<open>rfc_serde\<close>, used in concrete runs only, interprets it.
  \<^item> \<open>Interrupt\<close> (\<^verbatim>\<open>interrupt.rs\<close>) and \<open>Retry\<close> (\<^verbatim>\<open>retry.rs\<close>): the wait under any schedule of
    wake-ups, and the loop over any operation and wait, total by a measure on the remaining
    delays. Shown: the exact shape of every history of attempts and waits. The locales
    \<open>attempt_sends\<close> and \<open>timed_attempts\<close> bound what a run sends and how long it takes, from
    the same laws of one attempt; the client's delivery interprets both.
  \<^item> \<open>Transport\<close> (\<^verbatim>\<open>transport.rs\<close>): the agent's configuration and one attempt, over \<^verbatim>\<open>ureq\<close> as
    a function of configuration, request and network state. Shown: the retry decision, the
    status and the cause of every way of failing.
  \<^item> \<open>Drop_Logger\<close> (\<^verbatim>\<open>drop_logger.rs\<close>): the 64-bit counter and the rate limit.
  \<^item> \<open>Transition\<close>: runs of a labelled step relation and the locales \<open>trace_invariant\<close> and
    \<open>state_invariant\<close>, which every invariant below interprets, and \<open>ranked_steps\<close>, which turns
    a decreasing rank into bounded runs and into runs that cannot be extended.
  \<^item> \<open>Dispatcher\<close> (\<^verbatim>\<open>dispatcher.rs\<close>): the state behind the mutex and each critical section as a
    function; \<^verbatim>\<open>drain_until\<close> and \<^verbatim>\<open>close\<close> over the turns at which the closing thread gets the
    lock, with whatever the other threads did in between. Shown: \<^verbatim>\<open>submit\<close> refines a bounded
    queue that keeps the newest; a drain returns past its deadline at the latest.
  \<^item> \<open>Dispatcher_Threads\<close>: \<open>dstep\<close>, the interleaving of submitters, workers and the closing
    thread, with the condition variable's \<^verbatim>\<open>notify_one\<close>, \<^verbatim>\<open>notify_all\<close>, spurious wake-ups,
    time and panicking tasks; its invariants. \<open>Dispatcher_Properties\<close>: FIFO order, one fate
    per task, the bounds on queue and counter, no lost wake-up while open, the phases of
    closing, that closing needs no other thread, and two runs where the code does less than
    it means to. \<open>Dispatcher_Progress\<close>: with the threads' own steps ranked, an open dispatcher
    works off its queue in a bounded number of steps, and a close that no submission races
    with runs everything that was accepted.
  \<^item> \<open>Client\<close> (\<^verbatim>\<open>client.rs\<close>): the builder, the checks, delivery, the four posts; a delivery runs
    in a \<open>World\<close> of network, clock and the moment another thread signals the interrupt.
    \<open>Client_Properties\<close>: what a call sends, how long it takes, and what a close changes. The
    locale \<open>bounded_exchanges\<close> is the promise of \<^verbatim>\<open>ureq\<close>'s \<^verbatim>\<open>timeout_global\<close>.
  \<^item> \<open>Client_Threads\<close>: \<open>cstep\<close>, the interleaving of asynchronous callers, calls of \<^verbatim>\<open>close\<close> and
    \<^verbatim>\<open>drop\<close>, and the dispatcher. Every run projects to a run of \<open>dstep\<close>. Shown: the fate of
    every asynchronous post, the order of a close, that it happens once, and that what the
    winning call of a concurrent close leaves behind is what the sequential \<open>client_close\<close> does.
  \<^item> \<open>Shared_Posts\<close>: \<open>sstep\<close>, the interleaving of synchronous calls of any number of threads on one
    client, cut at every point where another thread can come in between (the closed flag, the
    agent, the interrupt's lock). Shown: each call behaves as if it were alone, each returns, a
    close ends the retries of all of them, and with a server that acknowledges all are served.
  \<^item> \<open>Orderly_Close\<close>: what a close loses, over every run: what it abandons, what panics and what is
    still running, and none of these if the drain ends within its timeout; that a client closed
    after its calls have returned has bounded work left and then loses nothing; and the example
    program carried through its close.
  \<^item> \<open>Smoke_Consumer\<close> (\<^verbatim>\<open>.github/smoke/rust/src/main.rs\<close>) and \<open>Plain_Example\<close>
    (\<^verbatim>\<open>examples/plain.rs\<close>): the two programs of the repository that call the SDK, as functions of
    environment, network and clock. Shown: how they end and what they send.
  \<^item> \<open>Utf8\<close> and \<open>Stub_Server\<close>: UTF-8 with Rust's replacement of ill-formed bytes, and the
    loopback server of the tests down to the bytes of a connection. Shown: it records exactly
    the head and the body of any well-formed HTTP request, and answers with a well-formed response.
  \<^item> \<open>Stub_Network\<close>: that server's thread and channel as the network of a client. What \<^verbatim>\<open>ureq\<close> does
    between a request and bytes is a parameter, and the locale \<open>http_agent\<close> what is relied on of
    it, HTTP/1.1; a plain agent interprets it. Shown: what a client posts arrives.
  \<^item> \<open>Unit_Tests\<close>, \<open>Client_Tests\<close>, \<open>Dispatcher_Tests\<close>, \<open>Public_Api_Tests\<close>: the crate's own tests,
    one predicate per test under the test's name, proved of the model for every \<open>json_library\<close>
    and \<open>http_agent\<close>; the one that shares a client across eight threads holds for every schedule
    of them. They tie the model to the behaviour the authors pinned down.
  \<^item> this theory: what reaches the API, for a post and for a task a worker runs.

  \<^bold>\<open>Choices.\<close> \<^verbatim>\<open>usize\<close> and \<^verbatim>\<open>u64\<close> are 64-bit words, \<^verbatim>\<open>u8\<close> and \<^verbatim>\<open>u16\<close> words of their width,
  \<^verbatim>\<open>i64\<close> and \<^verbatim>\<open>i32\<close> integers with the range checks of the conversions written out. Instants
  are natural numbers and do not overflow. No definition of the program needs fuel (the reference
  reader of \<open>Json_Reader\<close> is the only one with it): loops recurse structurally or on a measure, and waiting is a step relation or a list of wake-ups, where
  \<open>None\<close> is a wait that has not ended. A step of \<open>dstep\<close>, \<open>cstep\<close> or \<open>sstep\<close> is one critical
  section, one atomic access, one condition-variable operation or one half of an exchange with
  the agent, so all interleavings the mutexes allow are runs. A queued task is its captured
  request and key; \<open>run_task\<close> is its body. A byte of the test server's stream is its value.

  \<^bold>\<open>Not modelled.\<close> The text of log lines and of derived \<^verbatim>\<open>Debug\<close> output (where a program prints it, it
  is an argument); recovery from a poisoned mutex (no critical section panics); a failing
  \<^verbatim>\<open>thread::spawn\<close>; the connection pool and TLS inside \<^verbatim>\<open>ureq\<close>; the sockets under the test
  server; the re-exports of \<^verbatim>\<open>lib.rs\<close> and its version constant, which the build reads from the
  manifest; the SDKs for other languages and the build automation.
\<close>

section \<open>What reaches the API\<close>

text \<open>
  C3. A post either refuses the request and touches nothing, with the error its checks give, or
  puts the incident on the wire: there is a service key, the request's own or else the
  client's, and the call sends at least one request and at most one more than the schedule has
  delays (six by default), each of which carries the incident under that key.
\<close>

theorem post_delivers_the_incident:
  fixes J :: "('v, 'e) serde_json"
  assumes "json_quoting (quote J)" and "post J N c request W = (r, W')"
  shows "case (post_checks c request :: (unit, 'e IncidentError) result) of
      Inl e \<Rightarrow> r = Inl e \<and> W' = W
    | Inr _ \<Rightarrow> \<exists>key. option_or (service_key request) (in_service_key (inner c)) = Some key \<and>
        1 \<le> length (newly_sent W W') \<and> length (newly_sent W W') \<le> length (retry_delays (inner c)) + 1 \<and>
        list_all (carries (transport (inner c)) request (Some key)) (newly_sent W W')"
proof (cases "post_checks c request :: (unit, 'e IncidentError) result")
  case (Inl e)
  with assms(2) show ?thesis by (simp add: post_def)
next
  case (Inr u)
  then have checks: "post_checks c request = (Inr () :: (unit, 'e IncidentError) result)" by simp
  then have "deliver J N (inner c) request (in_service_key (inner c)) W = (r, W')"
    using assms(2) by (simp add: post_def)
  note sent = deliver_carries [OF assms(1) this]
  have "addressed (in_service_key (inner c)) \<lparr>t_request = request, t_service_key = in_service_key (inner c)\<rparr>"
    by (rule post_checks_addressed [OF checks])
  then have "option_or (service_key request) (in_service_key (inner c)) \<noteq> None"
    using checks by (auto simp: addressed_def post_checks_def require_service_key_def tryr_eq_Inr)
  with sent checks show ?thesis by fastforce
qed

text \<open>
  C2. A queued incident is delivered as it was posted: take any run of callers, workers and
  \<^verbatim>\<open>close\<close>, and any task a worker has started in it. Running that task sends at least one
  request and at most one more than the schedule has delays, all to the client's endpoint,
  each carrying the posted incident: under the request's own service key or else the
  client's, or without one if it was queued for service routing.
\<close>

theorem queued_incident_is_delivered_as_posted:
  assumes "json_quoting (quote J)" and "run cstep (client_start inn now) ls C"
    and "t \<in> set (history taken_by (dlabels ls))"
    and "run_task J N (cl_inner C) t W = (logged, W')"
  shows "\<exists>key. 1 \<le> length (newly_sent W W') \<and> length (newly_sent W W') \<le> length (retry_delays inn) + 1 \<and>
    list_all (carries (transport inn) (t_request t) key) (newly_sent W W') \<and>
    key = (if t_service_key t = None \<and> service_key (t_request t) = None then None
           else option_or (service_key (t_request t)) (in_service_key inn))"
proof -
  obtain i where inn: "cl_inner C = inn\<lparr>interrupt := i\<rparr>"
    using run_inner [OF assms(2)] by (auto simp: client_start_def)
  obtain r where "deliver J N (cl_inner C) (t_request t) (t_service_key t) W = (r, W')"
    using assms(4) by (auto simp: run_task_def split: prod.splits sum.splits)
  note sent = deliver_carries [OF assms(1) this, unfolded inn, simplified]
  have "addressed (in_service_key inn) t" by (rule started_tasks_are_addressed [OF assms(2,3)])
  then have "option_or (service_key (t_request t)) (t_service_key t) =
      (if t_service_key t = None \<and> service_key (t_request t) = None then None
       else option_or (service_key (t_request t)) (in_service_key inn))"
    by (auto simp: addressed_def)
  with sent show ?thesis by auto
qed

theorem post_delivers_the_incident_witness:
  "list_all (carries sample_transport sample_request (Some (lit ''svc'')))
     [http_request sample_transport (serialize_request rfc_serde sample_request (Some (lit ''svc'')))]"
  using post_delivers_the_incident [OF rfc_serde_quoting sample_post_202] by (simp add: newly_sent_def)

theorem queued_incident_is_delivered_as_posted_witness:
  "carries sample_transport sample_request (Some (lit ''svc''))
     (http_request sample_transport (serialize_request rfc_serde sample_request (Some (lit ''svc''))))"
proof -
  have inn: "demo_inner = inner sample_client" by (simp add: demo_inner_def sample_client_def)
  have "run_task rfc_serde (sample_net 202) (cl_inner (demo [] NotClosing demo_taken)) demo_task (sample_world None) =
      (None, \<lparr>net = 1, clock = 100, signal_at = None, wake_lag = 1,
        sent = [(0, http_request sample_transport (serialize_request rfc_serde sample_request (Some (lit ''svc''))))]\<rparr>)"
    by (simp add: run_task_def demo_def demo_task_def inn sample_deliver_202)
  from queued_incident_is_delivered_as_posted [OF rfc_serde_quoting demo_started_run _ this]
  show ?thesis by (simp add: newly_sent_def demo_inner_def demo_task_def)
qed

end
